theory Spec2Isabelle
  imports Complex_Main "HOL-Library.Sublist" "HOL-Library.Multiset" "HOL-Library.Log_Nat"
begin

section \<open>JavaScript numbers\<close>

text \<open>
  A JavaScript number is a binary64 value: a finite value, one of the two infinities, or
  NaN. A finite value is carried as the exact rational it denotes; the two zeros are not
  told apart. The result of an arithmetic operation is the exact result rounded to
  binary64, round to nearest, ties to even: \<open>r64\<close> rounds a rational to the nearest
  \<open>m * 2^e\<close> with \<open>m < 2^53\<close> and \<open>e >= -1074\<close>, and \<open>round64\<close> gives an infinity
  once the magnitude reaches \<open>2^1024 - 2^970\<close>, from where the nearest such value would
  be \<open>2^1024\<close>. Comparisons follow JavaScript: every comparison with NaN is false.
\<close>

datatype jsnum = Fin rat | PosInf | NegInf | NaN

text \<open>\<open>2^e\<close> for an integer \<open>e\<close>.\<close>

definition pow2 :: "int \<Rightarrow> rat" where
  "pow2 e = (if 0 \<le> e then 2 ^ nat e else 1 / 2 ^ nat (- e))"

text \<open>The nearest integer, the even one of the two when they are equally near.\<close>

definition round_even :: "rat \<Rightarrow> int" where
  "round_even s =
     (let f = \<lfloor>s\<rfloor>; d = s - of_int f
      in if d < 1 / 2 then f
         else if 1 / 2 < d then f + 1
         else if even f then f else f + 1)"

text \<open>The integer \<open>k\<close> with \<open>2^k <= a < 2^(k+1)\<close>, for a positive \<open>a\<close>.\<close>

definition ilog2 :: "rat \<Rightarrow> int" where
  "ilog2 a = (if 1 \<le> a then bitlen \<lfloor>a\<rfloor> - 1 else - bitlen (\<lceil>1 / a\<rceil> - 1))"

definition r64 :: "rat \<Rightarrow> rat" where
  "r64 x =
     (if x = 0 then 0
      else let e = max (- 1074) (ilog2 \<bar>x\<bar> - 52);
               m = round_even (\<bar>x\<bar> / pow2 e)
           in sgn x * of_int m * pow2 e)"

definition dbl_overflow :: rat where
  "dbl_overflow = 2 ^ 1024 - 2 ^ 970"

definition round64 :: "rat \<Rightarrow> jsnum" where
  "round64 x =
     (if dbl_overflow \<le> x then PosInf
      else if x \<le> - dbl_overflow then NegInf
      else Fin (r64 x))"

text \<open>The binary64 value nearest to 0.8.\<close>

definition dbl_0_8 :: rat where
  "dbl_0_8 = 3602879701896397 / 4503599627370496"

text \<open>\<open>Number.isFinite\<close>.\<close>

fun isFinite :: "jsnum \<Rightarrow> bool" where
  "isFinite (Fin _) = True"
| "isFinite _ = False"

text \<open>\<open>a + b\<close>.\<close>

fun js_add :: "jsnum \<Rightarrow> jsnum \<Rightarrow> jsnum" where
  "js_add (Fin a) (Fin b) = round64 (a + b)"
| "js_add NaN _ = NaN"
| "js_add _ NaN = NaN"
| "js_add PosInf NegInf = NaN"
| "js_add NegInf PosInf = NaN"
| "js_add PosInf _ = PosInf"
| "js_add _ PosInf = PosInf"
| "js_add NegInf _ = NegInf"
| "js_add _ NegInf = NegInf"

text \<open>\<open>a < b\<close>; \<open>a > b\<close> is \<open>js_less b a\<close>.\<close>

fun js_less :: "jsnum \<Rightarrow> jsnum \<Rightarrow> bool" where
  "js_less (Fin a) (Fin b) = (a < b)"
| "js_less NaN _ = False"
| "js_less _ NaN = False"
| "js_less _ NegInf = False"
| "js_less PosInf _ = False"
| "js_less NegInf _ = True"
| "js_less _ PosInf = True"

text \<open>\<open>a <= b\<close>.\<close>

fun js_le :: "jsnum \<Rightarrow> jsnum \<Rightarrow> bool" where
  "js_le (Fin a) (Fin b) = (a \<le> b)"
| "js_le NaN _ = False"
| "js_le _ NaN = False"
| "js_le NegInf _ = True"
| "js_le _ PosInf = True"
| "js_le _ NegInf = False"
| "js_le PosInf _ = False"

text \<open>\<open>q * n\<close> for an array length \<open>n\<close>, which is a number itself.\<close>

fun js_mul_nat :: "jsnum \<Rightarrow> nat \<Rightarrow> jsnum" where
  "js_mul_nat (Fin a) n = round64 (a * of_nat n)"
| "js_mul_nat NaN n = NaN"
| "js_mul_nat PosInf n = (if n = 0 then NaN else PosInf)"
| "js_mul_nat NegInf n = (if n = 0 then NaN else NegInf)"

text \<open>\<open>Math.ceil\<close>.\<close>

fun js_ceil :: "jsnum \<Rightarrow> jsnum" where
  "js_ceil (Fin a) = Fin (of_int \<lceil>a\<rceil>)"
| "js_ceil x = x"

text \<open>\<open>Math.max(1, x)\<close>: NaN if \<open>x\<close> is.\<close>

fun js_max1 :: "jsnum \<Rightarrow> jsnum" where
  "js_max1 (Fin a) = Fin (max 1 a)"
| "js_max1 NegInf = Fin 1"
| "js_max1 x = x"

text \<open>\<open>x - 1\<close>.\<close>

fun js_sub1 :: "jsnum \<Rightarrow> jsnum" where
  "js_sub1 (Fin a) = round64 (a - 1)"
| "js_sub1 x = x"

text \<open>
  \<open>xs[i]\<close> for a number \<open>i\<close>: the element when \<open>i\<close> is an integer index of the
  array, \<open>undefined\<close> otherwise.
\<close>

fun js_index :: "'a list \<Rightarrow> jsnum \<Rightarrow> 'a option" where
  "js_index xs (Fin a) =
     (if a = of_int \<lfloor>a\<rfloor> \<and> 0 \<le> a \<and> nat \<lfloor>a\<rfloor> < length xs then Some (xs ! nat \<lfloor>a\<rfloor>) else None)"
| "js_index xs _ = None"

section \<open>The parsed XML tree\<close>

text \<open>
  The object tree the XML parser returns. An attribute that is absent reads as
  \<open>undefined\<close>, here \<open>None\<close>. The two \<open>time\<close> attributes are held after the
  conversion \<open>Number(...)\<close> the analyzer applies to them at once: \<open>None\<close> when the
  attribute is absent, \<open>Some NaN\<close> when its text is not a number. A child collection
  is absent, one node, or an array of nodes.
\<close>

datatype 'a one_or_many = Absent | Single 'a | Many "'a list"

datatype node =
    NodeStr string
  | NodeObj (n_message: "string option") (n_type: "string option")
      (n_text: "string option") (n_underscore: "string option")

record testcase =
  tc_classname :: "string option"
  tc_class :: "string option"
  tc_name :: "string option"
  tc_time :: "jsnum option"
  tc_file :: "string option"
  tc_filename :: "string option"
  tc_failure :: "node one_or_many"
  tc_error :: "node one_or_many"

record suite =
  su_name :: "string option"
  su_file :: "string option"
  su_filename :: "string option"
  su_time :: "jsnum option"
  su_testcase :: "testcase one_or_many"

text \<open>
  \<open>r_wrapped\<close> is \<open>root.testsuites?.testsuite\<close> (an array whenever present, by the
  parser's \<open>isArray\<close> option), \<open>r_testsuite\<close> is \<open>root.testsuite\<close>.
\<close>

record root =
  r_wrapped :: "suite list option"
  r_testsuite :: "suite one_or_many"

section \<open>The report\<close>

datatype status = Failure | Error

record FailedTest =
  ft_suiteName :: "string option"
  ft_className :: "string option"
  ft_testName :: string
  ft_time :: "jsnum option"
  ft_status :: status
  ft_message :: "string option"
  ft_type :: "string option"
  ft_details :: "string option"
  ft_file :: "string option"

record SlowTest =
  st_suiteName :: "string option"
  st_className :: "string option"
  st_testName :: string
  st_time :: rat
  st_file :: "string option"

record SlowSuite =
  ss_suiteName :: "string option"
  ss_totalTime :: rat
  ss_totalTests :: int
  ss_failedTests :: int
  ss_file :: "string option"

record TestStats =
  totalSuites :: int
  failedSuites :: int
  totalTests :: int
  failedTests :: int
  passedTests :: int

record JUnitReport =
  stats :: TestStats
  failed :: "FailedTest list"
  slowTopQuantileTests :: "SlowTest list"
  slowTopQuantileSuites :: "SlowSuite list"

text \<open>
  The options, each \<open>None\<close> when the caller leaves it out. The two counts are natural
  numbers.
\<close>

record JUnitOptions =
  slowTestThresholdSec :: "jsnum option"
  topSlowTests :: "nat option"
  slowSuitesQuantile :: "jsnum option"
  minKeepSuites :: "nat option"

section \<open>Helpers of the analyzer\<close>

text \<open>\<open>a ?? b\<close>.\<close>

fun nullish :: "'a option \<Rightarrow> 'a option \<Rightarrow> 'a option" where
  "nullish (Some a) b = Some a"
| "nullish None b = b"

text \<open>Truthiness of an optional string: \<open>undefined\<close> and the empty string are falsy.\<close>

fun truthy_str :: "string option \<Rightarrow> bool" where
  "truthy_str None = False"
| "truthy_str (Some s) = (s \<noteq> [])"

fun truthy_node :: "node \<Rightarrow> bool" where
  "truthy_node (NodeStr s) = (s \<noteq> [])"
| "truthy_node (NodeObj _ _ _ _) = True"

text \<open>\<open>Array.isArray(x) ? x : x ? [x] : []\<close>.\<close>

fun to_array :: "('a \<Rightarrow> bool) \<Rightarrow> 'a one_or_many \<Rightarrow> 'a list" where
  "to_array truthy Absent = []"
| "to_array truthy (Single x) = (if truthy x then [x] else [])"
| "to_array truthy (Many xs) = xs"

text \<open>\<open>Array.prototype.sort((a, b) => b.key - a.key)\<close>: a stable sort, descending.\<close>

definition sort_desc :: "('a \<Rightarrow> rat) \<Rightarrow> 'a list \<Rightarrow> 'a list" where
  "sort_desc key xs = sort_key (\<lambda>x. - key x) xs"

text \<open>Compute quantile threshold (inclusive nearest-rank) on an array of numbers.\<close>

definition quantileInclusive :: "rat list \<Rightarrow> jsnum \<Rightarrow> rat option" where
  "quantileInclusive values q =
     (if values = [] then None
      else let srt = sort values;
               rank = js_max1 (js_ceil (js_mul_nat q (length srt)))
           in js_index srt (js_sub1 rank))"

text \<open>
  Pick the most frequent string. The \<open>Map\<close> keeps its keys in insertion order, so it is
  an association list; \<open>bump\<close> is \<open>map.set(it, (map.get(it) ?? 0) + 1)\<close>.
\<close>

fun bump :: "(string \<times> nat) list \<Rightarrow> string \<Rightarrow> (string \<times> nat) list" where
  "bump [] k = [(k, 1)]"
| "bump ((k', n) # m) k = (if k' = k then (k', n + 1) # m else (k', n) # bump m k)"

definition mostFrequent :: "string option list \<Rightarrow> string option" where
  "mostFrequent items =
     (let m = fold (\<lambda>it m. case it of Some s \<Rightarrow> if truthy_str it then bump m s else m
                                   | None \<Rightarrow> m) items []
      in fst (fold (\<lambda>(k, n) (best, bestN). if bestN < n then (Some k, n) else (best, bestN))
                m (None, 0)))"

section \<open>The analyzer\<close>

text \<open>
  The variables the loops of \<open>getJUnitReportFromXml\<close> update: \<open>acc\<close> holds those
  declared before the loop over the suites, \<open>sacc\<close> those declared afresh for each suite.
\<close>

record acc =
  a_failedSuites :: int
  a_totalTests :: int
  a_failedTests :: int
  a_failed :: "FailedTest list"
  a_allTimedTests :: "SlowTest list"
  a_allSuites :: "SlowSuite list"

record sacc =
  s_suiteFailed :: bool
  s_suiteFailedCount :: int
  s_testcaseFiles :: "string option list"
  s_suiteTimeFromCases :: jsnum

definition init_acc :: acc where
  "init_acc = \<lparr>a_failedSuites = 0, a_totalTests = 0, a_failedTests = 0,
     a_failed = [], a_allTimedTests = [], a_allSuites = []\<rparr>"

definition init_sacc :: sacc where
  "init_sacc = \<lparr>s_suiteFailed = False, s_suiteFailedCount = 0,
     s_testcaseFiles = [], s_suiteTimeFromCases = Fin 0\<rparr>"

text \<open>\<open>node?.message\<close>, \<open>node?.type\<close> and the \<open>details\<close> of a failed entry.\<close>

fun node_message :: "node \<Rightarrow> string option" where
  "node_message (NodeStr s) = None"
| "node_message (NodeObj m t x u) = m"

fun node_type :: "node \<Rightarrow> string option" where
  "node_type (NodeStr s) = None"
| "node_type (NodeObj m t x u) = t"

fun node_details :: "node \<Rightarrow> string option" where
  "node_details (NodeStr s) = Some s"
| "node_details (NodeObj m t x u) = nullish x u"

text \<open>
  \<open>processNode\<close>, a closure over \<open>suiteName\<close>, \<open>className\<close>, \<open>testName\<close>, \<open>time\<close>
  and \<open>file\<close> of the test case at hand.
\<close>

definition processNode ::
  "string option \<Rightarrow> string option \<Rightarrow> string \<Rightarrow> jsnum option \<Rightarrow> string option \<Rightarrow>
   status \<Rightarrow> node \<Rightarrow> acc \<times> sacc \<Rightarrow> acc \<times> sacc" where
  "processNode suiteName className testName time file status nd = (\<lambda>(A, S).
     (A\<lparr>a_failedTests := a_failedTests A + 1,
        a_failed := a_failed A @
          [\<lparr>ft_suiteName = suiteName, ft_className = className, ft_testName = testName,
            ft_time = time, ft_status = status, ft_message = node_message nd,
            ft_type = node_type nd, ft_details = node_details nd, ft_file = file\<rparr>]\<rparr>,
      S\<lparr>s_suiteFailed := True, s_suiteFailedCount := s_suiteFailedCount S + 1\<rparr>))"

text \<open>The body of the loop over the test cases of one suite.\<close>

definition testcase_step :: "string option \<Rightarrow> testcase \<Rightarrow> acc \<times> sacc \<Rightarrow> acc \<times> sacc" where
  "testcase_step suiteName tc = (\<lambda>(A, S).
     let className = nullish (tc_classname tc) (tc_class tc);
         testName = (case tc_name tc of Some n \<Rightarrow> n | None \<Rightarrow> ''(unnamed)'');
         time = tc_time tc;
         file = nullish (tc_file tc) (tc_filename tc);
         (A1, S1) =
           (case time of
              Some (Fin t) \<Rightarrow>
                (A\<lparr>a_allTimedTests := a_allTimedTests A @
                     [\<lparr>st_suiteName = suiteName, st_className = className,
                       st_testName = testName, st_time = t, st_file = file\<rparr>]\<rparr>,
                 S\<lparr>s_suiteTimeFromCases := js_add (s_suiteTimeFromCases S) (Fin t)\<rparr>)
            | _ \<Rightarrow> (A, S));
         S2 = (if truthy_str file then S1\<lparr>s_testcaseFiles := s_testcaseFiles S1 @ [file]\<rparr>
               else S1);
         failNodes = to_array truthy_node (tc_failure tc);
         errNodes = to_array truthy_node (tc_error tc);
         st3 = fold (processNode suiteName className testName time file Failure) failNodes (A1, S2)
     in fold (processNode suiteName className testName time file Error) errNodes st3)"

text \<open>The body of the loop over the suites.\<close>

definition suite_step :: "suite \<Rightarrow> acc \<Rightarrow> acc" where
  "suite_step su A =
     (let suiteName = su_name su;
          suiteFile = nullish (su_file su) (su_filename su);
          testcases = to_array (\<lambda>_. True) (su_testcase su);
          A1 = A\<lparr>a_totalTests := a_totalTests A + int (length testcases)\<rparr>;
          (A2, S) = fold (testcase_step suiteName) testcases (A1, init_sacc);
          A3 = (if s_suiteFailed S then A2\<lparr>a_failedSuites := a_failedSuites A2 + 1\<rparr> else A2);
          totalTime = (case su_time su of Some (Fin t) \<Rightarrow> Fin t | _ \<Rightarrow> s_suiteTimeFromCases S);
          resolvedFile = nullish suiteFile (mostFrequent (s_testcaseFiles S))
      in case totalTime of
           Fin t \<Rightarrow>
             A3\<lparr>a_allSuites := a_allSuites A3 @
                  [\<lparr>ss_suiteName = suiteName, ss_totalTime = t,
                    ss_totalTests = int (length testcases),
                    ss_failedTests = s_suiteFailedCount S, ss_file = resolvedFile\<rparr>]\<rparr>
         | _ \<Rightarrow> A3)"

text \<open>Collect testsuites regardless of wrapping.\<close>

definition collect_suites :: "root \<Rightarrow> suite list" where
  "collect_suites r =
     (case r_wrapped r of
        Some ss \<Rightarrow> ss
      | None \<Rightarrow> to_array (\<lambda>_. True) (r_testsuite r))"

text \<open>Slow tests: filter by threshold then take top-N.\<close>

definition slowTopTests :: "jsnum \<Rightarrow> nat \<Rightarrow> SlowTest list \<Rightarrow> SlowTest list" where
  "slowTopTests thr topN allTimed =
     take topN (sort_desc st_time (filter (\<lambda>t. js_less thr (Fin (st_time t))) allTimed))"

text \<open>
  Slow suites: quantile method (inclusive nearest-rank). \<open>quantile_suites\<close> is the
  value of \<open>slowTopQuantileSuites\<close> after its in-place sort, before the minimum is
  applied; \<open>slowSuites\<close> is its final value.
\<close>

definition quantile_suites :: "jsnum \<Rightarrow> SlowSuite list \<Rightarrow> SlowSuite list" where
  "quantile_suites q allS =
     (let suiteTimes = map ss_totalTime allS;
          suiteThresh = quantileInclusive suiteTimes q
      in sort_desc ss_totalTime
           (case suiteThresh of
              None \<Rightarrow> []
            | Some th \<Rightarrow> filter (\<lambda>s. th \<le> ss_totalTime s) allS))"

definition slowSuites :: "jsnum \<Rightarrow> nat \<Rightarrow> SlowSuite list \<Rightarrow> SlowSuite list" where
  "slowSuites q minKeep allS =
     (let sel = quantile_suites q allS
      in if length sel < minKeep \<and> allS \<noteq> []
         then take minKeep (sort_desc ss_totalTime allS)
         else sel)"

text \<open>The options with the defaults of \<open>getJUnitReportFromXml\<close> filled in.\<close>

definition opt_threshold :: "JUnitOptions \<Rightarrow> jsnum" where
  "opt_threshold opts = (case slowTestThresholdSec opts of Some v \<Rightarrow> v | None \<Rightarrow> Fin 5)"

definition opt_topN :: "JUnitOptions \<Rightarrow> nat" where
  "opt_topN opts = (case topSlowTests opts of Some v \<Rightarrow> v | None \<Rightarrow> 20)"

definition opt_quantile :: "JUnitOptions \<Rightarrow> jsnum" where
  "opt_quantile opts = (case slowSuitesQuantile opts of Some v \<Rightarrow> v | None \<Rightarrow> Fin dbl_0_8)"

definition opt_minKeep :: "JUnitOptions \<Rightarrow> nat" where
  "opt_minKeep opts = (case minKeepSuites opts of Some v \<Rightarrow> v | None \<Rightarrow> 1)"

text \<open>The variables when the loop over the suites ends.\<close>

definition run_suites :: "root \<Rightarrow> acc" where
  "run_suites r = fold suite_step (collect_suites r) init_acc"

text \<open>\<open>getJUnitReportFromXml\<close> from the parsed tree on.\<close>

definition report_of_root :: "root \<Rightarrow> JUnitOptions \<Rightarrow> JUnitReport" where
  "report_of_root r opts =
     (let suites = collect_suites r;
          A = run_suites r
      in \<lparr>stats = \<lparr>totalSuites = int (length suites), failedSuites = a_failedSuites A,
                   totalTests = a_totalTests A, failedTests = a_failedTests A,
                   passedTests = a_totalTests A - a_failedTests A\<rparr>,
          failed = a_failed A,
          slowTopQuantileTests =
            slowTopTests (opt_threshold opts) (opt_topN opts) (a_allTimedTests A),
          slowTopQuantileSuites =
            slowSuites (opt_quantile opts) (opt_minKeep opts) (a_allSuites A)\<rparr>)"

text \<open>
  Parse a JUnit XML string and return stats + failures + slow tests/suites. The XML
  parser is a library outside the repository: it is the parameter \<open>parse\<close>, which
  either raises or returns the tree. The analyzer has no handler around the call, so
  what the parser raises reaches the caller.
\<close>

datatype error = InputError string

definition getJUnitReportFromXml ::
  "(string \<Rightarrow> error + root) \<Rightarrow> string \<Rightarrow> JUnitOptions \<Rightarrow> error + JUnitReport" where
  "getJUnitReportFromXml parse xml opts =
     (case parse xml of
        Inl e \<Rightarrow> Inl e
      | Inr r \<Rightarrow> Inr (report_of_root r opts))"

section \<open>What the loops compute\<close>

text \<open>
  The analyzer builds its lists and counters by mutation inside two nested loops. The
  definitions of this section say, without loops, what each of them holds: they are the
  reading the theorems below compare the analyzer with.
\<close>

definition annotations :: "testcase \<Rightarrow> (status \<times> node) list" where
  "annotations tc =
     map (Pair Failure) (to_array truthy_node (tc_failure tc)) @
     map (Pair Error) (to_array truthy_node (tc_error tc))"

definition failed_entry :: "string option \<Rightarrow> testcase \<Rightarrow> status \<times> node \<Rightarrow> FailedTest" where
  "failed_entry suiteName tc = (\<lambda>(status, nd).
     \<lparr>ft_suiteName = suiteName,
      ft_className = nullish (tc_classname tc) (tc_class tc),
      ft_testName = (case tc_name tc of Some n \<Rightarrow> n | None \<Rightarrow> ''(unnamed)''),
      ft_time = tc_time tc, ft_status = status, ft_message = node_message nd,
      ft_type = node_type nd, ft_details = node_details nd,
      ft_file = nullish (tc_file tc) (tc_filename tc)\<rparr>)"

definition timed_entry :: "string option \<Rightarrow> testcase \<Rightarrow> SlowTest list" where
  "timed_entry suiteName tc =
     (case tc_time tc of
        Some (Fin t) \<Rightarrow>
          [\<lparr>st_suiteName = suiteName,
            st_className = nullish (tc_classname tc) (tc_class tc),
            st_testName = (case tc_name tc of Some n \<Rightarrow> n | None \<Rightarrow> ''(unnamed)''),
            st_time = t, st_file = nullish (tc_file tc) (tc_filename tc)\<rparr>]
      | _ \<Rightarrow> [])"

definition tc_finite_time :: "testcase \<Rightarrow> rat list" where
  "tc_finite_time tc = (case tc_time tc of Some (Fin t) \<Rightarrow> [t] | _ \<Rightarrow> [])"

definition tc_truthy_file :: "testcase \<Rightarrow> string option list" where
  "tc_truthy_file tc = (let f = nullish (tc_file tc) (tc_filename tc) in if truthy_str f then [f] else [])"

definition testcases_of :: "suite \<Rightarrow> testcase list" where
  "testcases_of su = to_array (\<lambda>_. True) (su_testcase su)"

definition suite_duration :: "suite \<Rightarrow> jsnum" where
  "suite_duration su =
     (case su_time su of
        Some (Fin t) \<Rightarrow> Fin t
      | _ \<Rightarrow> fold (\<lambda>t a. js_add a (Fin t)) (concat (map tc_finite_time (testcases_of su))) (Fin 0))"

definition suite_annotations :: "suite \<Rightarrow> (status \<times> node) list" where
  "suite_annotations su = concat (map annotations (testcases_of su))"

definition suite_entry :: "suite \<Rightarrow> SlowSuite list" where
  "suite_entry su =
     (case suite_duration su of
        Fin t \<Rightarrow>
          [\<lparr>ss_suiteName = su_name su, ss_totalTime = t,
            ss_totalTests = int (length (testcases_of su)),
            ss_failedTests = int (length (suite_annotations su)),
            ss_file = nullish (nullish (su_file su) (su_filename su))
                        (mostFrequent (concat (map tc_truthy_file (testcases_of su))))\<rparr>]
      | _ \<Rightarrow> [])"

definition failed_of_suite :: "suite \<Rightarrow> FailedTest list" where
  "failed_of_suite su =
     concat (map (\<lambda>tc. map (failed_entry (su_name su) tc) (annotations tc)) (testcases_of su))"

definition timed_of_suite :: "suite \<Rightarrow> SlowTest list" where
  "timed_of_suite su = concat (map (timed_entry (su_name su)) (testcases_of su))"

section \<open>Example inputs\<close>

text \<open>
  A test case and a suite with no attribute and no child, the options with nothing set,
  and the tree whose wrapper holds the given suites.
\<close>

definition tc_plain :: testcase where
  "tc_plain = \<lparr>tc_classname = None, tc_class = None, tc_name = None, tc_time = None,
     tc_file = None, tc_filename = None, tc_failure = Absent, tc_error = Absent\<rparr>"

definition su_plain :: suite where
  "su_plain = \<lparr>su_name = None, su_file = None, su_filename = None, su_time = None,
     su_testcase = Absent\<rparr>"

definition no_opts :: JUnitOptions where
  "no_opts = \<lparr>slowTestThresholdSec = None, topSlowTests = None, slowSuitesQuantile = None,
     minKeepSuites = None\<rparr>"

definition root_of :: "suite list \<Rightarrow> root" where
  "root_of sus = \<lparr>r_wrapped = Some sus, r_testsuite = Absent\<rparr>"

text \<open>
  One suite with one test case that carries one failure and one error:
  \<^verbatim>\<open><testsuites><testsuite><testcase name="t"><failure>boom</failure><error>bang</error></testcase></testsuite></testsuites>\<close>
\<close>

definition ex_failure_and_error :: root where
  "ex_failure_and_error =
     root_of [su_plain\<lparr>su_testcase := Many
       [tc_plain\<lparr>tc_name := Some ''t'',
                 tc_failure := Many [NodeStr ''boom''],
                 tc_error := Many [NodeStr ''bang'']\<rparr>]\<rparr>]"

text \<open>
  One suite with one test case that carries two failures:
  \<^verbatim>\<open><testsuites><testsuite><testcase name="a"><failure>x</failure><failure>y</failure></testcase></testsuite></testsuites>\<close>
\<close>

definition ex_two_failures :: root where
  "ex_two_failures =
     root_of [su_plain\<lparr>su_testcase := Many
       [tc_plain\<lparr>tc_name := Some ''a'',
                 tc_failure := Many [NodeStr ''x'', NodeStr ''y'']\<rparr>]\<rparr>]"

text \<open>
  Two suites of two test cases each, with durations 1, 6, 2 and 7 seconds; the second
  test case of each suite fails.
\<close>

definition ex_roundtrip :: root where
  "ex_roundtrip =
     root_of
      [su_plain\<lparr>su_name := Some ''A'', su_testcase := Many
         [tc_plain\<lparr>tc_name := Some ''a1'', tc_time := Some (Fin 1)\<rparr>,
          tc_plain\<lparr>tc_name := Some ''a2'', tc_time := Some (Fin 6),
                    tc_failure := Many [NodeObj (Some ''m1'') None None None]\<rparr>]\<rparr>,
       su_plain\<lparr>su_name := Some ''B'', su_testcase := Many
         [tc_plain\<lparr>tc_name := Some ''b1'', tc_time := Some (Fin 2)\<rparr>,
          tc_plain\<lparr>tc_name := Some ''b2'', tc_time := Some (Fin 7),
                    tc_failure := Many [NodeObj (Some ''m2'') None None None]\<rparr>]\<rparr>]"

text \<open>The suites with the given declared durations and no test case.\<close>

definition timed_suites :: "rat list \<Rightarrow> root" where
  "timed_suites ds = root_of (map (\<lambda>d. su_plain\<lparr>su_time := Some (Fin d)\<rparr>) ds)"

text \<open>Quantile 1 and at least two suites kept; the other options at their defaults.\<close>

definition opts_q1_keep2 :: JUnitOptions where
  "opts_q1_keep2 = no_opts\<lparr>slowSuitesQuantile := Some (Fin 1), minKeepSuites := Some 2\<rparr>"

text \<open>Quantile 2 and no suite kept by the minimum; the other options at their defaults.\<close>

definition opts_q2_keep0 :: JUnitOptions where
  "opts_q2_keep0 = no_opts\<lparr>slowSuitesQuantile := Some (Fin 2), minKeepSuites := Some 0\<rparr>"

text \<open>
  One test case whose \<open>time\<close> attribute is not a number, with one failure:
  \<^verbatim>\<open><testsuites><testsuite><testcase name="t" time="abc"><failure>boom</failure></testcase></testsuite></testsuites>\<close>
\<close>

definition ex_nan_time :: root where
  "ex_nan_time =
     root_of [su_plain\<lparr>su_testcase := Many
       [tc_plain\<lparr>tc_name := Some ''t'', tc_time := Some NaN,
                 tc_failure := Many [NodeStr ''boom'']\<rparr>]\<rparr>]"

text \<open>
  The binary64 value nearest to \<open>1e308\<close>, and one suite without a \<open>time\<close> attribute
  whose two test cases each took that long:
  \<^verbatim>\<open><testsuites><testsuite name="S"><testcase name="a" time="1e308"/><testcase name="b" time="1e308"/></testsuite></testsuites>\<close>
\<close>

definition dbl_1e308 :: rat where
  "dbl_1e308 = 5010420900022432 * 2 ^ 971"

definition su_overflow :: suite where
  "su_overflow =
     su_plain\<lparr>su_name := Some ''S'', su_testcase := Many
       [tc_plain\<lparr>tc_name := Some ''a'', tc_time := Some (Fin dbl_1e308)\<rparr>,
        tc_plain\<lparr>tc_name := Some ''b'', tc_time := Some (Fin dbl_1e308)\<rparr>]\<rparr>"

definition ex_overflow :: root where
  "ex_overflow = root_of [su_overflow]"

section \<open>Rounding to binary64\<close>

lemma pow2_powi: "pow2 e = 2 powi e"
  by (simp add: pow2_def power_int_def inverse_eq_divide power_one_over)

lemma pow2_pos: "0 < pow2 e"
  by (simp add: pow2_powi)

lemma pow2_nat: "pow2 (int n) = 2 ^ n"
  by (simp add: pow2_def)

lemma pow2_add: "pow2 (a + b) = pow2 a * pow2 b"
  by (simp add: pow2_powi power_int_add)

lemma pow2_strict_mono: "a < b \<Longrightarrow> pow2 a < pow2 b"
  by (simp add: pow2_powi power_int_strict_increasing)

lemma pow2_mono: "a \<le> b \<Longrightarrow> pow2 a \<le> pow2 b"
  by (simp add: pow2_powi power_int_increasing)

lemma pow2_less_cancel: "pow2 a < pow2 b \<Longrightarrow> a < b"
  using pow2_mono [of b a] by (cases "a < b") auto

lemma pow2_neg_mult: "e \<le> 0 \<Longrightarrow> pow2 e * 2 ^ nat (- e) = 1"
  by (cases "e = 0") (simp_all add: pow2_def)

lemma ilog2_bounds:
  assumes "0 < a"
  shows "pow2 (ilog2 a) \<le> a \<and> a < pow2 (ilog2 a + 1)"
proof (cases "1 \<le> a")
  case True
  define N where "N = \<lfloor>a\<rfloor>"
  have N1: "1 \<le> N" using True by (simp add: N_def le_floor_iff)
  then have Npos: "0 < N" by simp
  have b1: "1 \<le> bitlen N"
    using Npos bitlen_eq_zero_iff [of N] bitlen_nonneg [of N] by linarith
  from bitlen_bounds [OF Npos] have lo: "2 ^ nat (bitlen N - 1) \<le> N" and hi: "N < 2 ^ nat (bitlen N)"
    by simp_all
  have il: "ilog2 a = bitlen N - 1"
    using True by (simp add: ilog2_def N_def)
  have "(of_int (2 ^ nat (bitlen N - 1)) :: rat) \<le> of_int N"
    using lo by (simp only: of_int_le_iff)
  also have "(of_int N :: rat) \<le> a" by (simp add: N_def)
  finally have lower: "pow2 (bitlen N - 1) \<le> a"
    using b1 by (simp add: pow2_def)
  have "N + 1 \<le> 2 ^ nat (bitlen N)" using hi by simp
  then have "(of_int (N + 1) :: rat) \<le> of_int (2 ^ nat (bitlen N))"
    by (simp only: of_int_le_iff)
  moreover have "a < of_int (N + 1)"
    unfolding N_def using floor_correct [of a] by simp
  ultimately have upper: "a < pow2 (bitlen N)"
    using b1 by (simp add: pow2_def)
  from lower upper show ?thesis by (simp add: il)
next
  case False
  then have a1: "a < 1" by simp
  define y where "y = 1 / a"
  have y1: "1 < y" using assms a1 by (simp add: y_def)
  define M where "M = \<lceil>y\<rceil> - 1"
  have My: "of_int M < y" unfolding M_def using ceiling_correct [of y] by simp
  have yM: "y \<le> of_int (M + 1)" unfolding M_def using ceiling_correct [of y] by simp
  have "1 < \<lceil>y\<rceil>" using y1 by (simp add: less_ceiling_iff)
  then have M1: "1 \<le> M" unfolding M_def by simp
  then have Mpos: "0 < M" by simp
  define b where "b = bitlen M"
  have b1: "1 \<le> b"
    using Mpos bitlen_eq_zero_iff [of M] bitlen_nonneg [of M] unfolding b_def by linarith
  from bitlen_bounds [OF Mpos] have lo: "2 ^ nat (b - 1) \<le> M" and hi: "M < 2 ^ nat b"
    by (simp_all add: b_def)
  have il: "ilog2 a = - b"
    using False by (simp add: ilog2_def M_def y_def b_def)
  have "M + 1 \<le> 2 ^ nat b" using hi by simp
  then have "(of_int (M + 1) :: rat) \<le> of_int (2 ^ nat b)"
    by (simp only: of_int_le_iff)
  with yM have yb: "y \<le> 2 ^ nat b" by simp
  have "(of_int (2 ^ nat (b - 1)) :: rat) \<le> of_int M"
    using lo by (simp only: of_int_le_iff)
  then have "(of_int (2 ^ nat (b - 1)) :: rat) < y"
    using My by (rule order.strict_trans1)
  then have by': "2 ^ nat (b - 1) < y" by simp
  have lower: "pow2 (- b) \<le> a"
  proof -
    have "1 / 2 ^ nat b \<le> 1 / y"
      using yb y1 by (intro divide_left_mono) simp_all
    then show ?thesis using b1 assms by (simp add: pow2_def y_def)
  qed
  have upper: "a < pow2 (- b + 1)"
  proof -
    have "1 / y < 1 / 2 ^ nat (b - 1)"
      using by' y1 by (intro divide_strict_left_mono) simp_all
    moreover have "pow2 (- b + 1) = 1 / 2 ^ nat (b - 1)"
      using b1 by (cases "b = 1") (simp_all add: pow2_def)
    ultimately show ?thesis using assms by (simp add: y_def)
  qed
  from lower upper show ?thesis by (simp add: il)
qed

lemma ilog2_unique:
  assumes "0 < a" and "pow2 k \<le> a" and "a < pow2 (k + 1)"
  shows "ilog2 a = k"
proof -
  from ilog2_bounds [OF assms(1)] have lo: "pow2 (ilog2 a) \<le> a" and hi: "a < pow2 (ilog2 a + 1)"
    by simp_all
  from lo assms(3) have "pow2 (ilog2 a) < pow2 (k + 1)" by simp
  then have "ilog2 a < k + 1" by (rule pow2_less_cancel)
  moreover from assms(2) hi have "pow2 k < pow2 (ilog2 a + 1)" by simp
  then have "k < ilog2 a + 1" by (rule pow2_less_cancel)
  ultimately show ?thesis by simp
qed

lemma round_even_of_int: "round_even (of_int n) = n"
  by (simp add: round_even_def)

lemma round_even_nonneg: "0 \<le> s \<Longrightarrow> 0 \<le> round_even s"
  by (auto simp add: round_even_def Let_def)

lemma round_even_le_int:
  assumes "s \<le> of_int N"
  shows "round_even s \<le> N"
proof (cases "s = of_int N")
  case True
  then show ?thesis by (simp add: round_even_of_int)
next
  case False
  with assms have "s < of_int N" by simp
  then have "\<lfloor>s\<rfloor> < N" by (simp add: floor_less_iff)
  then show ?thesis by (auto simp add: round_even_def Let_def)
qed

lemma r64_binade:
  assumes "0 < x" and "pow2 k \<le> x" and "x < pow2 (k + 1)"
  shows "r64 x = of_int (round_even (x / pow2 (max (- 1074) (k - 52)))) * pow2 (max (- 1074) (k - 52))"
proof -
  have k: "ilog2 x = k" using assms by (rule ilog2_unique)
  have ax: "\<bar>x\<bar> = x" "sgn x = 1" "x \<noteq> 0" using assms(1) by simp_all
  show ?thesis
    unfolding r64_def Let_def ax k using ax(3) by simp
qed

lemma r64_0: "r64 0 = 0"
  by (simp add: r64_def)

lemma exponent_small:
  assumes "0 < x" and "x < 2 ^ 53"
  shows "max (- 1074) (ilog2 x - 52) \<le> 0"
proof -
  from ilog2_bounds [OF assms(1)] have "pow2 (ilog2 x) \<le> x" by simp
  also have "x < pow2 53" using assms(2) by (simp add: pow2_def)
  finally have "ilog2 x < 53" by (rule pow2_less_cancel)
  then show ?thesis by simp
qed

lemma r64_unfold_pos:
  assumes "0 < x"
  shows "r64 x = of_int (round_even (x / pow2 (max (- 1074) (ilog2 x - 52)))) *
                 pow2 (max (- 1074) (ilog2 x - 52))"
proof -
  have ax: "\<bar>x\<bar> = x" "sgn x = 1" "x \<noteq> 0" using assms by simp_all
  show ?thesis
    unfolding r64_def Let_def ax using ax(3) by simp
qed

lemma r64_le_nat:
  assumes x0: "0 \<le> x" and xn: "x \<le> of_nat n" and n: "n < 2 ^ 53"
  shows "0 \<le> r64 x \<and> r64 x \<le> of_nat n"
proof (cases "x = 0")
  case True
  then show ?thesis by (simp add: r64_0)
next
  case False
  with x0 have xpos: "0 < x" by simp
  define e where "e = max (- 1074) (ilog2 x - 52)"
  have "(of_nat n :: rat) < of_nat (2 ^ 53)"
    using n by (simp only: of_nat_less_iff)
  with xn have xs: "x < 2 ^ 53" by simp
  have e0: "e \<le> 0"
    unfolding e_def using xpos xs by (rule exponent_small)
  define N where "N = int n * 2 ^ nat (- e)"
  have inv: "1 / pow2 e = 2 ^ nat (- e)"
    using pow2_neg_mult [OF e0] pow2_pos [of e] by (simp add: field_simps)
  have sN: "x / pow2 e \<le> of_int N"
  proof -
    have "x / pow2 e = x * (1 / pow2 e)"
      by simp
    also have "\<dots> = x * 2 ^ nat (- e)"
      by (simp only: inv)
    also have "\<dots> \<le> of_nat n * 2 ^ nat (- e)"
      using xn by (intro mult_right_mono) simp_all
    finally show ?thesis by (simp add: N_def)
  qed
  have s0: "0 \<le> x / pow2 e"
    using x0 pow2_pos [of e] by simp
  have m0: "0 \<le> round_even (x / pow2 e)" using s0 by (rule round_even_nonneg)
  have mN: "round_even (x / pow2 e) \<le> N" using sN by (rule round_even_le_int)
  have val: "r64 x = of_int (round_even (x / pow2 e)) * pow2 e"
    unfolding e_def using xpos by (rule r64_unfold_pos)
  have lo: "0 \<le> r64 x"
    unfolding val using m0 pow2_pos [of e] by simp
  have "of_int (round_even (x / pow2 e)) * pow2 e \<le> (of_int N :: rat) * pow2 e"
    using mN pow2_pos [of e] by (intro mult_right_mono) simp_all
  also have "(of_int N :: rat) * pow2 e = of_nat n * (pow2 e * 2 ^ nat (- e))"
    by (simp add: N_def)
  also have "\<dots> = of_nat n"
    by (simp only: pow2_neg_mult [OF e0] mult_1_right)
  finally have hi: "r64 x \<le> of_nat n"
    unfolding val .
  from lo hi show ?thesis by simp
qed

lemma r64_small_nat:
  assumes n: "n < 2 ^ 53"
  shows "r64 (of_nat n) = of_nat n"
proof (cases "n = 0")
  case True
  then show ?thesis by (simp add: r64_0)
next
  case False
  define x :: rat where "x = of_nat n"
  have xpos: "0 < x" using False by (simp add: x_def)
  define e where "e = max (- 1074) (ilog2 x - 52)"
  have "(of_nat n :: rat) < of_nat (2 ^ 53)"
    using n by (simp only: of_nat_less_iff)
  then have xs: "x < 2 ^ 53" by (simp add: x_def)
  have e0: "e \<le> 0"
    unfolding e_def using xpos xs by (rule exponent_small)
  have inv: "1 / pow2 e = 2 ^ nat (- e)"
    using pow2_neg_mult [OF e0] pow2_pos [of e] by (simp add: field_simps)
  have "x / pow2 e = x * (1 / pow2 e)"
    by simp
  also have "\<dots> = x * 2 ^ nat (- e)"
    by (simp only: inv)
  also have "\<dots> = of_int (int n * 2 ^ nat (- e))"
    by (simp add: x_def)
  finally have s: "x / pow2 e = of_int (int n * 2 ^ nat (- e))" .
  have "r64 x = of_int (round_even (x / pow2 e)) * pow2 e"
    unfolding e_def using xpos by (rule r64_unfold_pos)
  also have "\<dots> = of_int (int n * 2 ^ nat (- e)) * pow2 e"
    by (simp only: s round_even_of_int)
  also have "\<dots> = of_nat n * (pow2 e * 2 ^ nat (- e))"
    by simp
  also have "\<dots> = of_nat n"
    by (simp only: pow2_neg_mult [OF e0] mult_1_right)
  finally show ?thesis by (simp add: x_def)
qed

lemma floor_rat_numeral: "\<lfloor>(numeral a :: rat) / numeral b\<rfloor> = numeral a div numeral b"
  using floor_divide_of_int_eq [of "numeral a" "numeral b", where ?'a = rat] by simp

lemma round64_small_nat: "n < 2 ^ 53 \<Longrightarrow> round64 (of_nat n) = Fin (of_nat n)"
proof -
  assume n: "n < 2 ^ 53"
  have "(of_nat n :: rat) < of_nat (2 ^ 53)"
    using n by (simp only: of_nat_less_iff)
  then have "(of_nat n :: rat) < dbl_overflow"
    by (simp add: dbl_overflow_def)
  moreover have "- dbl_overflow < (of_nat n :: rat)"
    by (rule less_le_trans [of _ 0]) (simp_all add: dbl_overflow_def)
  ultimately show ?thesis
    by (simp add: round64_def r64_small_nat [OF n])
qed

lemma round64_numeral: "numeral k < (2::nat) ^ 53 \<Longrightarrow> round64 (numeral k) = Fin (numeral k)"
  using round64_small_nat [of "numeral k"] by simp

lemma round64_0: "round64 0 = Fin 0"
  using round64_small_nat [of 0] by simp

lemma round64_1: "round64 1 = Fin 1"
  using round64_small_nat [of 1] by simp

lemma r64_q5: "r64 (dbl_0_8 * 5) = 4"
proof -
  have "r64 (dbl_0_8 * 5) =
      of_int (round_even (dbl_0_8 * 5 / pow2 (max (- 1074) (2 - 52)))) * pow2 (max (- 1074) (2 - 52))"
    by (rule r64_binade) (simp_all add: dbl_0_8_def pow2_def)
  also have "\<dots> = 4"
    by (simp add: dbl_0_8_def pow2_def round_even_def Let_def floor_rat_numeral)
  finally show ?thesis .
qed

lemma r64_q1: "r64 dbl_0_8 = dbl_0_8"
proof -
  have "r64 dbl_0_8 =
      of_int (round_even (dbl_0_8 / pow2 (max (- 1074) (- 1 - 52)))) * pow2 (max (- 1074) (- 1 - 52))"
    by (rule r64_binade) (simp_all add: dbl_0_8_def pow2_def)
  also have "\<dots> = dbl_0_8"
    by (simp add: dbl_0_8_def pow2_def round_even_def Let_def floor_rat_numeral)
  finally show ?thesis .
qed

lemma r64_1e308: "r64 dbl_1e308 = dbl_1e308"
proof -
  have "r64 dbl_1e308 =
      of_int (round_even (dbl_1e308 / pow2 (max (- 1074) (1023 - 52)))) * pow2 (max (- 1074) (1023 - 52))"
    by (rule r64_binade) (simp_all add: dbl_1e308_def pow2_def)
  also have "\<dots> = dbl_1e308"
    by (simp add: dbl_1e308_def pow2_def round_even_def Let_def)
  finally show ?thesis .
qed

lemma round64_1e308: "round64 dbl_1e308 = Fin dbl_1e308"
  by (simp add: round64_def r64_1e308) (simp add: dbl_1e308_def dbl_overflow_def)

lemma round64_2e308: "round64 (dbl_1e308 + dbl_1e308) = PosInf"
  by (simp add: round64_def dbl_1e308_def dbl_overflow_def)

section \<open>The loops, solved\<close>

lemma fold_processNode:
  "fold (processNode sn cn tn t f st) nodes (A, S) =
     (A\<lparr>a_failedTests := a_failedTests A + int (length nodes),
        a_failed := a_failed A @
          map (\<lambda>nd. \<lparr>ft_suiteName = sn, ft_className = cn, ft_testName = tn,
            ft_time = t, ft_status = st, ft_message = node_message nd,
            ft_type = node_type nd, ft_details = node_details nd, ft_file = f\<rparr>) nodes\<rparr>,
      S\<lparr>s_suiteFailed := s_suiteFailed S \<or> nodes \<noteq> [],
        s_suiteFailedCount := s_suiteFailedCount S + int (length nodes)\<rparr>)"
  by (induction nodes arbitrary: A S) (simp_all add: processNode_def)

lemma testcase_step_eq:
  "testcase_step sn tc (A, S) =
     (A\<lparr>a_failedTests := a_failedTests A + int (length (annotations tc)),
        a_failed := a_failed A @ map (failed_entry sn tc) (annotations tc),
        a_allTimedTests := a_allTimedTests A @ timed_entry sn tc\<rparr>,
      S\<lparr>s_suiteFailed := s_suiteFailed S \<or> annotations tc \<noteq> [],
        s_suiteFailedCount := s_suiteFailedCount S + int (length (annotations tc)),
        s_testcaseFiles := s_testcaseFiles S @ tc_truthy_file tc,
        s_suiteTimeFromCases := fold (\<lambda>t a. js_add a (Fin t)) (tc_finite_time tc) (s_suiteTimeFromCases S)\<rparr>)"
  by (auto simp add: testcase_step_def fold_processNode annotations_def failed_entry_def timed_entry_def
      tc_finite_time_def tc_truthy_file_def Let_def comp_def split: option.splits jsnum.splits)

lemma fold_testcase_step:
  "fold (testcase_step sn) tcs (A, S) =
     (A\<lparr>a_failedTests := a_failedTests A + int (length (concat (map annotations tcs))),
        a_failed := a_failed A @ concat (map (\<lambda>tc. map (failed_entry sn tc) (annotations tc)) tcs),
        a_allTimedTests := a_allTimedTests A @ concat (map (timed_entry sn) tcs)\<rparr>,
      S\<lparr>s_suiteFailed := s_suiteFailed S \<or> concat (map annotations tcs) \<noteq> [],
        s_suiteFailedCount := s_suiteFailedCount S + int (length (concat (map annotations tcs))),
        s_testcaseFiles := s_testcaseFiles S @ concat (map tc_truthy_file tcs),
        s_suiteTimeFromCases :=
          fold (\<lambda>t a. js_add a (Fin t)) (concat (map tc_finite_time tcs)) (s_suiteTimeFromCases S)\<rparr>)"
proof (induction tcs arbitrary: A S)
  case Nil
  show ?case by simp
next
  case (Cons tc tcs)
  show ?case
    by (simp add: testcase_step_eq Cons.IH)
qed

lemma suite_step_eq:
  "suite_step su A =
     A\<lparr>a_failedSuites := a_failedSuites A + (if suite_annotations su \<noteq> [] then 1 else 0),
       a_totalTests := a_totalTests A + int (length (testcases_of su)),
       a_failedTests := a_failedTests A + int (length (suite_annotations su)),
       a_failed := a_failed A @ failed_of_suite su,
       a_allTimedTests := a_allTimedTests A @ timed_of_suite su,
       a_allSuites := a_allSuites A @ suite_entry su\<rparr>"
  by (simp add: suite_step_def fold_testcase_step testcases_of_def [symmetric] init_sacc_def
      suite_duration_def suite_annotations_def suite_entry_def failed_of_suite_def timed_of_suite_def
      Let_def split: option.splits jsnum.splits)

lemma fold_suite_step:
  "fold suite_step sus A =
     A\<lparr>a_failedSuites := a_failedSuites A + int (length (filter (\<lambda>su. suite_annotations su \<noteq> []) sus)),
       a_totalTests := a_totalTests A + int (length (concat (map testcases_of sus))),
       a_failedTests := a_failedTests A + int (length (concat (map suite_annotations sus))),
       a_failed := a_failed A @ concat (map failed_of_suite sus),
       a_allTimedTests := a_allTimedTests A @ concat (map timed_of_suite sus),
       a_allSuites := a_allSuites A @ concat (map suite_entry sus)\<rparr>"
proof (induction sus arbitrary: A)
  case Nil
  show ?case by simp
next
  case (Cons su sus)
  show ?case (is "_ = ?R")
  proof -
    have "fold suite_step (su # sus) A = fold suite_step sus (suite_step su A)"
      by simp
    also have "\<dots> = ?R"
      by (subst Cons.IH) (simp add: suite_step_eq)
    finally show ?thesis .
  qed
qed

lemma sort_desc_sorted: "sorted_wrt (\<lambda>a b. key b \<le> key a) (sort_desc key xs)"
proof -
  have "sorted (map (\<lambda>x. - key x) (sort_desc key xs))"
    unfolding sort_desc_def by (rule sorted_sort_key)
  then show ?thesis
    by (simp add: sorted_map)
qed

lemma sort_desc_stable:
  "filter (\<lambda>y. key y = k) (sort_desc key xs) = filter (\<lambda>y. key y = k) xs"
proof -
  have "filter (\<lambda>y. - key y = - k) (sort_key (\<lambda>x. - key x) xs) = filter (\<lambda>y. - key y = - k) xs"
    by (rule sort_key_stable)
  then show ?thesis
    by (simp add: sort_desc_def)
qed

lemma mset_sort_desc: "mset (sort_desc key xs) = mset xs"
  by (simp add: sort_desc_def)

lemma set_sort_desc: "set (sort_desc key xs) = set xs"
  by (simp add: sort_desc_def)

lemma length_sort_desc: "length (sort_desc key xs) = length xs"
  by (simp add: sort_desc_def)

lemma sort_desc_Nil: "sort_desc key [] = []"
  by (simp add: sort_desc_def)

lemma sort_key_stable_sym:
  "filter (\<lambda>x. k = f x) (sort_key f ys) = filter (\<lambda>x. k = f x) ys"
  using sort_key_stable [of f k ys] by (simp add: eq_commute [of k])

lemma sort_key_split:
  fixes f :: "'a \<Rightarrow> 'k::linorder"
  assumes sep: "\<And>x y. x \<in> set xs \<Longrightarrow> y \<in> set xs \<Longrightarrow> P x \<Longrightarrow> \<not> P y \<Longrightarrow> f x < f y"
  shows "sort_key f xs = sort_key f (filter P xs) @ sort_key f (filter (\<lambda>x. \<not> P x) xs)"
proof (rule properties_for_sort_key)
  let ?A = "sort_key f (filter P xs)" and ?B = "sort_key f (filter (\<lambda>x. \<not> P x) xs)"
  show "mset (?A @ ?B) = mset xs"
    by simp
  show "sorted (map f (?A @ ?B))"
    using sep by (auto simp add: sorted_append dest: less_imp_le)
  fix k
  assume "k \<in> set (?A @ ?B)"
  then have k: "k \<in> set xs"
    by auto
  show "filter (\<lambda>x. f k = f x) (?A @ ?B) = filter (\<lambda>x. f k = f x) xs"
  proof (cases "P k")
    case True
    have same: "\<And>x. x \<in> set xs \<Longrightarrow> f k = f x \<Longrightarrow> P x"
      using sep [OF k _ True] by force
    have "filter (\<lambda>x. f k = f x) (?A @ ?B) =
        filter (\<lambda>x. f k = f x) (filter P xs) @ filter (\<lambda>x. f k = f x) (filter (\<lambda>x. \<not> P x) xs)"
      by (simp only: filter_append sort_key_stable_sym)
    also have "filter (\<lambda>x. f k = f x) (filter (\<lambda>x. \<not> P x) xs) = []"
      using same by (auto simp add: filter_empty_conv)
    also have "filter (\<lambda>x. f k = f x) (filter P xs) = filter (\<lambda>x. f k = f x) xs"
      using same by (auto intro: filter_cong)
    finally show ?thesis by simp
  next
    case False
    have same: "\<And>x. x \<in> set xs \<Longrightarrow> f k = f x \<Longrightarrow> \<not> P x"
      using sep [OF _ k _ False] by force
    have "filter (\<lambda>x. f k = f x) (?A @ ?B) =
        filter (\<lambda>x. f k = f x) (filter P xs) @ filter (\<lambda>x. f k = f x) (filter (\<lambda>x. \<not> P x) xs)"
      by (simp only: filter_append sort_key_stable_sym)
    also have "filter (\<lambda>x. f k = f x) (filter P xs) = []"
      using same by (auto simp add: filter_empty_conv)
    also have "filter (\<lambda>x. f k = f x) (filter (\<lambda>x. \<not> P x) xs) = filter (\<lambda>x. f k = f x) xs"
      using same by (auto intro: filter_cong)
    finally show ?thesis by simp
  qed
qed

lemma js_le_less_trans: "js_le a b \<Longrightarrow> js_less b c \<Longrightarrow> js_less a c"
  by (cases a; cases b; cases c) auto

lemma js_less_sep:
  "js_less t (Fin a) \<Longrightarrow> \<not> js_less t (Fin b) \<Longrightarrow> b < a"
  by (cases t) auto

lemma take_append_prefix: "prefix (take n xs) (take n (xs @ ys))"
  by (simp add: prefix_def)

lemma slowTopTests_prefix:
  assumes le: "js_le t' t"
  shows "prefix (slowTopTests t n pool) (slowTopTests t' n pool)"
proof -
  let ?P = "\<lambda>x. js_less t (Fin (st_time x))"
  let ?xs = "filter (\<lambda>x. js_less t' (Fin (st_time x))) pool"
  have sub: "filter ?P ?xs = filter ?P pool"
    using le by (auto intro: filter_cong dest: js_le_less_trans)
  have "sort_key (\<lambda>x. - st_time x) ?xs =
      sort_key (\<lambda>x. - st_time x) (filter ?P ?xs) @
      sort_key (\<lambda>x. - st_time x) (filter (\<lambda>x. \<not> ?P x) ?xs)"
    by (rule sort_key_split) (auto dest: js_less_sep)
  then have "sort_desc st_time ?xs =
      sort_desc st_time (filter ?P pool) @ sort_desc st_time (filter (\<lambda>x. \<not> ?P x) ?xs)"
    by (simp only: sort_desc_def sub)
  then show ?thesis
    by (simp only: slowTopTests_def take_append_prefix)
qed

lemma slowTopTests_above:
  "x \<in> set (slowTopTests t n pool) \<Longrightarrow> x \<in> set pool \<and> js_less t (Fin (st_time x))"
  by (auto simp add: slowTopTests_def set_sort_desc dest: in_set_takeD)

lemma pow32_below_overflow: "(2::rat) ^ 32 < dbl_overflow"
  by (simp add: dbl_overflow_def)

lemma js_index_in_set: "js_index xs i = Some y \<Longrightarrow> y \<in> set xs"
  by (cases i) (auto split: if_splits)

lemma quantileInclusive_in_set: "quantileInclusive vs q = Some th \<Longrightarrow> th \<in> set vs"
  by (auto simp add: quantileInclusive_def Let_def split: if_splits dest: js_index_in_set)

lemma round64_in_range:
  assumes "0 \<le> x" and "x \<le> of_nat n" and "n < 2 ^ 32"
  shows "round64 x = Fin (r64 x)"
proof -
  have "(of_nat n :: rat) < of_nat (2 ^ 32)"
    using assms(3) by (simp only: of_nat_less_iff)
  with assms(2) have "x < 2 ^ 32" by simp
  then have "x < dbl_overflow"
    using pow32_below_overflow by simp
  moreover have "- dbl_overflow < x"
    using assms(1) pow32_below_overflow by (simp add: less_le_trans [of _ 0])
  ultimately show ?thesis
    by (simp add: round64_def)
qed

lemma rank_in_range:
  fixes q :: rat
  assumes "0 < n" and "n < 2 ^ 32" and "0 \<le> q" and "q \<le> 1"
  shows "1 \<le> nat (max 1 \<lceil>r64 (q * of_nat n)\<rceil>) \<and> nat (max 1 \<lceil>r64 (q * of_nat n)\<rceil>) \<le> n"
proof -
  have le: "q * of_nat n \<le> (of_nat n :: rat)"
    using mult_right_mono [OF assms(4), of "of_nat n"] by simp
  have ge: "0 \<le> q * of_nat n"
    using assms(3) by simp
  have "n < 2 ^ 53"
    using assms(2) by (rule less_trans) simp
  with ge le have "r64 (q * of_nat n) \<le> of_nat n"
    using r64_le_nat [of "q * of_nat n" n] by simp
  then have "\<lceil>r64 (q * of_nat n)\<rceil> \<le> int n"
    by (simp add: ceiling_le_iff)
  with assms(1) show ?thesis by (simp add: max_def) linarith
qed

lemma quantileInclusive_in_range:
  assumes ne: "vs \<noteq> []" and r0: "0 \<le> r" and r1: "r \<le> 1" and len: "length vs < 2 ^ 32"
  shows "quantileInclusive vs (Fin r) =
     Some (sort vs ! (nat (max 1 \<lceil>r64 (r * of_nat (length vs))\<rceil>) - 1))"
proof -
  define n where "n = length vs"
  define k where "k = max 1 \<lceil>r64 (r * of_nat n)\<rceil>"
  have npos: "0 < n" using ne by (simp add: n_def)
  have n32: "n < 2 ^ 32" using len by (simp add: n_def)
  have rn_le: "r * of_nat n \<le> of_nat n"
    using mult_right_mono [OF r1, of "of_nat n"] by simp
  have rn_ge: "0 \<le> r * of_nat n"
    using r0 by simp
  have mul: "js_mul_nat (Fin r) n = Fin (r64 (r * of_nat n))"
    using round64_in_range [OF rn_ge rn_le n32] by simp
  have k1: "1 \<le> k" by (simp add: k_def)
  from rank_in_range [OF npos n32 r0 r1] have "nat k \<le> n"
    by (simp add: k_def)
  with k1 have kn: "k \<le> int n" by linarith
  have mx: "max (1::rat) (of_int \<lceil>r64 (r * of_nat n)\<rceil>) = of_int k"
    by (simp add: max_def k_def)
  have sub: "js_sub1 (Fin (of_int k)) = Fin (of_int (k - 1))"
  proof -
    have small: "nat (k - 1) < 2 ^ 53"
      using kn n32 by (simp add: nat_less_iff)
    have e: "(of_nat (nat (k - 1)) :: rat) = of_int k - 1"
      using k1 by simp
    have "round64 (of_nat (nat (k - 1))) = Fin (of_nat (nat (k - 1)))"
      by (rule round64_small_nat [OF small])
    then have "round64 (of_int k - 1) = Fin (of_int k - 1)"
      unfolding e .
    then show ?thesis
      by (simp only: js_sub1.simps of_int_diff of_int_1)
  qed
  have "nat (k - 1) < length (sort vs)"
    using k1 kn by (simp add: n_def)
  then have idx: "js_index (sort vs) (Fin (of_int (k - 1))) = Some (sort vs ! nat (k - 1))"
    using k1 by simp
  have "quantileInclusive vs (Fin r) = js_index (sort vs) (js_sub1 (js_max1 (js_ceil (js_mul_nat (Fin r) n))))"
    using ne by (simp add: quantileInclusive_def Let_def n_def)
  also have "\<dots> = Some (sort vs ! nat (k - 1))"
    by (simp only: mul js_ceil.simps js_max1.simps mx sub idx)
  also have "nat (k - 1) = nat k - 1"
    by (simp add: nat_diff_distrib')
  finally show ?thesis
    by (simp add: k_def n_def)
qed

lemma quantile_suites_in_range:
  assumes ne: "pool \<noteq> []" and q0: "0 \<le> q" and q1: "q \<le> 1" and len: "length pool < 2 ^ 32"
  shows "quantile_suites (Fin q) pool =
     sort_desc ss_totalTime
       (filter (\<lambda>s. sort (map ss_totalTime pool) ! (nat (max 1 \<lceil>r64 (q * of_nat (length pool))\<rceil>) - 1)
                  \<le> ss_totalTime s) pool)"
proof -
  have "quantileInclusive (map ss_totalTime pool) (Fin q) =
      Some (sort (map ss_totalTime pool) !
        (nat (max 1 \<lceil>r64 (q * of_nat (length (map ss_totalTime pool)))\<rceil>) - 1))"
    using ne q0 q1 len by (intro quantileInclusive_in_range) simp_all
  then show ?thesis
    by (simp add: quantile_suites_def Let_def)
qed

lemma run_suites_eq:
  "run_suites r =
     \<lparr>a_failedSuites = int (length (filter (\<lambda>su. suite_annotations su \<noteq> []) (collect_suites r))),
      a_totalTests = int (length (concat (map testcases_of (collect_suites r)))),
      a_failedTests = int (length (concat (map suite_annotations (collect_suites r)))),
      a_failed = concat (map failed_of_suite (collect_suites r)),
      a_allTimedTests = concat (map timed_of_suite (collect_suites r)),
      a_allSuites = concat (map suite_entry (collect_suites r))\<rparr>"
  by (simp add: run_suites_def fold_suite_step init_acc_def)

lemma report_stats:
  "stats (report_of_root r opts) =
     \<lparr>totalSuites = int (length (collect_suites r)),
      failedSuites = int (length (filter (\<lambda>su. suite_annotations su \<noteq> []) (collect_suites r))),
      totalTests = int (length (concat (map testcases_of (collect_suites r)))),
      failedTests = int (length (concat (map suite_annotations (collect_suites r)))),
      passedTests = int (length (concat (map testcases_of (collect_suites r)))) -
                    int (length (concat (map suite_annotations (collect_suites r))))\<rparr>"
  by (simp add: report_of_root_def run_suites_eq Let_def)

lemma report_failed:
  "failed (report_of_root r opts) = concat (map failed_of_suite (collect_suites r))"
  by (simp add: report_of_root_def run_suites_eq Let_def)

lemma report_slowTests:
  "slowTopQuantileTests (report_of_root r opts) =
     slowTopTests (opt_threshold opts) (opt_topN opts) (concat (map timed_of_suite (collect_suites r)))"
  by (simp add: report_of_root_def run_suites_eq Let_def)

lemma report_slowSuites:
  "slowTopQuantileSuites (report_of_root r opts) =
     slowSuites (opt_quantile opts) (opt_minKeep opts) (concat (map suite_entry (collect_suites r)))"
  by (simp add: report_of_root_def run_suites_eq Let_def)

lemma timed_entry_time: "map st_time (timed_entry sn tc) = tc_finite_time tc"
  by (simp add: timed_entry_def tc_finite_time_def split: option.splits jsnum.splits)

lemma timed_of_suite_times:
  "map st_time (timed_of_suite su) = concat (map tc_finite_time (testcases_of su))"
  by (simp add: timed_of_suite_def map_concat comp_def timed_entry_time)

lemma timed_entry_origin:
  "x \<in> set (timed_entry sn tc) \<Longrightarrow> tc_time tc = Some (Fin (st_time x))"
  by (auto simp add: timed_entry_def split: option.splits jsnum.splits)

lemma pool_origin:
  assumes "x \<in> set (concat (map timed_of_suite sus))"
  shows "\<exists>su\<in>set sus. \<exists>tc\<in>set (testcases_of su). tc_time tc = Some (Fin (st_time x))"
  using assms by (auto simp add: timed_of_suite_def dest: timed_entry_origin)

lemma suite_duration_zero:
  assumes "\<forall>t. su_time su \<noteq> Some (Fin t)"
    and "\<forall>tc\<in>set (testcases_of su). \<forall>t. tc_time tc \<noteq> Some (Fin t)"
  shows "suite_duration su = Fin 0"
proof -
  have "tc_finite_time tc = []" if "tc \<in> set (testcases_of su)" for tc
    using assms(2) that by (auto simp add: tc_finite_time_def split: option.splits jsnum.splits)
  then have c: "concat (map tc_finite_time (testcases_of su)) = []"
    by simp
  show ?thesis
    using assms(1) by (simp add: suite_duration_def c split: option.splits jsnum.splits)
qed

lemma suite_entry_finite:
  "isFinite (suite_duration su) \<Longrightarrow>
     \<exists>e. suite_entry su = [e] \<and> ss_suiteName e = su_name su \<and> Fin (ss_totalTime e) = suite_duration su"
  by (cases "suite_duration su") (simp_all add: suite_entry_def)

lemma suite_entry_nonfinite: "\<not> isFinite (suite_duration su) \<Longrightarrow> suite_entry su = []"
  by (cases "suite_duration su") (simp_all add: suite_entry_def)

lemma pool_full:
  assumes "\<forall>su\<in>set sus. isFinite (suite_duration su)"
  shows "map ss_suiteName (concat (map suite_entry sus)) = map su_name sus \<and>
         map (\<lambda>s. Fin (ss_totalTime s)) (concat (map suite_entry sus)) = map suite_duration sus"
  using assms
proof (induction sus)
  case Nil
  show ?case by simp
next
  case (Cons su sus)
  from Cons.prems obtain e where "suite_entry su = [e]" "ss_suiteName e = su_name su"
      "Fin (ss_totalTime e) = suite_duration su"
    using suite_entry_finite [of su] by auto
  with Cons show ?case by simp
qed

lemma sort_desc_eq_Nil: "sort_desc key xs = [] \<longleftrightarrow> xs = []"
  using length_sort_desc [of key xs] by (metis length_0_conv)

lemma quantile_suites_nonempty:
  assumes "quantileInclusive (map ss_totalTime pool) q = Some th"
  shows "quantile_suites q pool \<noteq> []"
proof -
  from assms have "th \<in> set (map ss_totalTime pool)"
    by (rule quantileInclusive_in_set)
  then obtain s where "s \<in> set pool" "ss_totalTime s = th"
    by auto
  then have "filter (\<lambda>s. th \<le> ss_totalTime s) pool \<noteq> []"
    by (auto simp add: filter_empty_conv)
  then have "length (sort_desc ss_totalTime (filter (\<lambda>s. th \<le> ss_totalTime s) pool)) \<noteq> 0"
    by (simp add: length_sort_desc)
  then show ?thesis
    using assms by (auto simp add: quantile_suites_def Let_def)
qed

lemma slowSuites_nonempty:
  assumes ne: "pool \<noteq> []"
    and pol: "1 \<le> k \<or> (\<exists>x. q = Fin x \<and> 0 \<le> x \<and> x \<le> 1 \<and> length pool < 2 ^ 32)"
  shows "slowSuites q k pool \<noteq> []"
proof (cases "length (quantile_suites q pool) < k")
  case True
  then have "0 < k" by simp
  with ne have "take k (sort_desc ss_totalTime pool) \<noteq> []"
    by (simp add: sort_desc_eq_Nil)
  with True ne show ?thesis
    by (simp add: slowSuites_def)
next
  case False
  then have out: "slowSuites q k pool = quantile_suites q pool"
    by (simp add: slowSuites_def)
  show ?thesis
  proof (cases "quantileInclusive (map ss_totalTime pool) q")
    case (Some th)
    then show ?thesis
      unfolding out by (rule quantile_suites_nonempty)
  next
    case None
    then have "quantile_suites q pool = []"
      by (simp add: quantile_suites_def sort_desc_Nil)
    with False have "k = 0" by simp
    with pol obtain x where "q = Fin x" "0 \<le> x" "x \<le> 1" "length pool < 2 ^ 32"
      by auto
    with ne have "quantileInclusive (map ss_totalTime pool) q \<noteq> None"
      using quantileInclusive_in_range [of "map ss_totalTime pool" x] by simp
    with None show ?thesis by simp
  qed
qed

lemma ceiling_rat_numeral: "\<lceil>(numeral a :: rat) / numeral b\<rceil> = - (- numeral a div numeral b)"
  using ceiling_divide_eq_div [of "numeral a" "numeral b", where ?'a = rat] by simp

lemma round64_q1: "round64 dbl_0_8 = Fin dbl_0_8"
  by (simp add: round64_def r64_q1) (simp add: dbl_0_8_def dbl_overflow_def)

lemma round64_q5: "round64 (dbl_0_8 * 5) = Fin 4"
  by (simp add: round64_def r64_q5) (simp add: dbl_0_8_def dbl_overflow_def)

lemma ceiling_q1: "\<lceil>dbl_0_8\<rceil> = 1"
  by (simp add: dbl_0_8_def ceiling_rat_numeral)

lemma dbl_0_8_range: "0 \<le> dbl_0_8 \<and> dbl_0_8 \<le> 1"
  by (simp add: dbl_0_8_def)

lemma round64_twice_1e308: "round64 (2 * dbl_1e308) = PosInf"
  using round64_2e308 by simp

section \<open>The claims\<close>

lemmas eval_defs = report_of_root_def run_suites_def collect_suites_def suite_step_def
  testcase_step_def processNode_def init_acc_def init_sacc_def slowTopTests_def slowSuites_def
  quantile_suites_def quantileInclusive_def sort_desc_def mostFrequent_def
  opt_threshold_def opt_topN_def opt_quantile_def opt_minKeep_def
  round64_0 round64_1 round64_numeral round64_q1 round64_q5 ceiling_q1
  tc_plain_def su_plain_def no_opts_def root_of_def Let_def

text \<open>
  C1. The claim: \<open>failedTests\<close> is the number of test cases with at least one failure
  or error annotation, so a test case with one failure and one error adds 1 to it and 2
  entries to \<open>failed\<close>. The analyzer increments \<open>failedTests\<close> inside \<open>processNode\<close>,
  once per annotation, so \<open>failedTests\<close> is always the length of \<open>failed\<close>: on the
  tree with a single test case carrying one failure and one error, one test case has an
  annotation, \<open>failed\<close> has 2 entries, and \<open>failedTests\<close> (like the suite's own
  failed count) is 2, not 1.
\<close>

theorem failedTests_counts_annotations:
  "(\<forall>r opts. failedTests (stats (report_of_root r opts)) =
      int (length (failed (report_of_root r opts)))) \<and>
   length (filter (\<lambda>tc. annotations tc \<noteq> [])
      (concat (map testcases_of (collect_suites ex_failure_and_error)))) = 1 \<and>
   length (failed (report_of_root ex_failure_and_error no_opts)) = 2 \<and>
   failedTests (stats (report_of_root ex_failure_and_error no_opts)) = 2 \<and>
   map ss_failedTests (slowTopQuantileSuites (report_of_root ex_failure_and_error no_opts)) = [2]"
proof -
  have "length (concat (map failed_of_suite sus)) = length (concat (map suite_annotations sus))"
    for sus
    by (induction sus) (simp_all add: failed_of_suite_def suite_annotations_def length_concat comp_def)
  then have "failedTests (stats (report_of_root r opts)) =
      int (length (failed (report_of_root r opts)))" for r opts
    by (simp add: report_stats report_failed)
  moreover have "length (filter (\<lambda>tc. annotations tc \<noteq> [])
      (concat (map testcases_of (collect_suites ex_failure_and_error)))) = 1 \<and>
   length (failed (report_of_root ex_failure_and_error no_opts)) = 2 \<and>
   failedTests (stats (report_of_root ex_failure_and_error no_opts)) = 2 \<and>
   map ss_failedTests (slowTopQuantileSuites (report_of_root ex_failure_and_error no_opts)) = [2]"
    by (simp add: eval_defs ex_failure_and_error_def annotations_def testcases_of_def)
  ultimately show ?thesis by blast
qed

text \<open>
  C3. The claim: \<open>passedTests = totalTests - failedTests\<close>, and both \<open>passedTests\<close>
  and \<open>failedTests\<close> are non-negative. The equation holds and \<open>failedTests\<close> is never
  negative, but \<open>failedTests\<close> counts annotations: for one test case with two failures
  the analyzer returns 1 test, 2 failed tests and -1 passed tests.
\<close>

theorem passedTests_negative:
  "(\<forall>r opts.
      passedTests (stats (report_of_root r opts)) =
        totalTests (stats (report_of_root r opts)) - failedTests (stats (report_of_root r opts)) \<and>
      0 \<le> failedTests (stats (report_of_root r opts))) \<and>
   totalTests (stats (report_of_root ex_two_failures no_opts)) = 1 \<and>
   failedTests (stats (report_of_root ex_two_failures no_opts)) = 2 \<and>
   passedTests (stats (report_of_root ex_two_failures no_opts)) = - 1"
proof -
  have "passedTests (stats (report_of_root r opts)) =
        totalTests (stats (report_of_root r opts)) - failedTests (stats (report_of_root r opts)) \<and>
      0 \<le> failedTests (stats (report_of_root r opts))" for r opts
    by (simp add: report_stats)
  moreover have "totalTests (stats (report_of_root ex_two_failures no_opts)) = 1 \<and>
   failedTests (stats (report_of_root ex_two_failures no_opts)) = 2 \<and>
   passedTests (stats (report_of_root ex_two_failures no_opts)) = - 1"
    by (simp add: eval_defs ex_two_failures_def)
  ultimately show ?thesis by blast
qed

text \<open>
  C4. For a non-empty candidate pool (of fewer than \<open>2^32\<close> suites, as every array
  has) and a quantile \<open>q\<close> in \<open>[0,1]\<close>: the rank \<open>max(1, ceil(q * count))\<close>, with the
  product the binary64 product the code computes (the exact product rounded by \<open>r64\<close>),
  lies between 1 and the count, the threshold is the element at that 1-based rank of
  the durations sorted ascending, and what is kept before the minimum applies is exactly
  the suites with a duration at or above the threshold, by duration descending, ties in
  pool order; it is the result whenever it has at least \<open>minKeepSuites\<close> suites. For
  \<open>q = 0.8\<close> over the durations 1, 2, 3, 4, 5 the rank is 4, the threshold 4, and the
  suites of durations 5 and 4 are kept.
\<close>

theorem quantile_threshold:
  "(opt_quantile opts = Fin q \<and> 0 \<le> q \<and> q \<le> 1 \<and>
    a_allSuites (run_suites r) \<noteq> [] \<and> length (a_allSuites (run_suites r)) < 2 ^ 32 \<longrightarrow>
     (let pool = a_allSuites (run_suites r);
          rank = nat (max 1 \<lceil>r64 (q * of_nat (length pool))\<rceil>);
          th = sort (map ss_totalTime pool) ! (rank - 1);
          kept = filter (\<lambda>s. th \<le> ss_totalTime s) pool;
          sel = quantile_suites (Fin q) pool
      in js_mul_nat (Fin q) (length pool) = Fin (r64 (q * of_nat (length pool))) \<and>
         1 \<le> rank \<and> rank \<le> length pool \<and>
         quantileInclusive (map ss_totalTime pool) (Fin q) = Some th \<and>
         sel = sort_desc ss_totalTime kept \<and>
         sorted_wrt (\<lambda>a b. ss_totalTime b \<le> ss_totalTime a) sel \<and>
         (\<forall>d. filter (\<lambda>s. ss_totalTime s = d) sel = filter (\<lambda>s. ss_totalTime s = d) kept) \<and>
         (opt_minKeep opts \<le> length sel \<longrightarrow>
            slowTopQuantileSuites (report_of_root r opts) = sel))) \<and>
   nat (max 1 \<lceil>r64 (dbl_0_8 * of_nat (length [1, 2, 3, 4, 5 :: rat]))\<rceil>) = 4 \<and>
   quantileInclusive [1, 2, 3, 4, 5] (Fin dbl_0_8) = Some 4 \<and>
   map ss_totalTime (a_allSuites (run_suites (timed_suites [1, 2, 3, 4, 5]))) = [1, 2, 3, 4, 5] \<and>
   map ss_totalTime (quantile_suites (Fin dbl_0_8) (a_allSuites (run_suites (timed_suites [1, 2, 3, 4, 5]))))
     = [5, 4]"
proof -
  let ?pool = "a_allSuites (run_suites r)"
  let ?rank = "nat (max 1 \<lceil>r64 (q * of_nat (length ?pool))\<rceil>)"
  let ?th = "sort (map ss_totalTime ?pool) ! (?rank - 1)"
  let ?kept = "filter (\<lambda>s. ?th \<le> ss_totalTime s) ?pool"
  let ?sel = "quantile_suites (Fin q) ?pool"
  have general: "js_mul_nat (Fin q) (length ?pool) = Fin (r64 (q * of_nat (length ?pool))) \<and>
         1 \<le> ?rank \<and> ?rank \<le> length ?pool \<and>
         quantileInclusive (map ss_totalTime ?pool) (Fin q) = Some ?th \<and>
         ?sel = sort_desc ss_totalTime ?kept \<and>
         sorted_wrt (\<lambda>a b. ss_totalTime b \<le> ss_totalTime a) ?sel \<and>
         (\<forall>d. filter (\<lambda>s. ss_totalTime s = d) ?sel = filter (\<lambda>s. ss_totalTime s = d) ?kept) \<and>
         (opt_minKeep opts \<le> length ?sel \<longrightarrow>
            slowTopQuantileSuites (report_of_root r opts) = ?sel)"
    if h: "opt_quantile opts = Fin q" "0 \<le> q" "q \<le> 1" "?pool \<noteq> []" "length ?pool < 2 ^ 32"
  proof -
    have le: "q * of_nat (length ?pool) \<le> of_nat (length ?pool)"
      using mult_right_mono [OF h(3), of "of_nat (length ?pool)"] by simp
    have ge: "0 \<le> q * of_nat (length ?pool)"
      using h(2) by simp
    have mul: "js_mul_nat (Fin q) (length ?pool) = Fin (r64 (q * of_nat (length ?pool)))"
      using round64_in_range [OF ge le h(5)] by simp
    have rank: "1 \<le> ?rank \<and> ?rank \<le> length ?pool"
      using h(2,3,4,5) by (intro rank_in_range) simp_all
    have th: "quantileInclusive (map ss_totalTime ?pool) (Fin q) = Some ?th"
      using quantileInclusive_in_range [of "map ss_totalTime ?pool" q] h by simp
    have sel: "?sel = sort_desc ss_totalTime ?kept"
      using h by (intro quantile_suites_in_range)
    have srt: "sorted_wrt (\<lambda>a b. ss_totalTime b \<le> ss_totalTime a) ?sel"
      unfolding sel by (rule sort_desc_sorted)
    have stable: "\<forall>d. filter (\<lambda>s. ss_totalTime s = d) ?sel = filter (\<lambda>s. ss_totalTime s = d) ?kept"
      unfolding sel by (simp add: sort_desc_stable)
    have out: "opt_minKeep opts \<le> length ?sel \<longrightarrow>
            slowTopQuantileSuites (report_of_root r opts) = ?sel"
      by (simp add: report_of_root_def slowSuites_def Let_def h(1))
    from mul rank th sel srt stable out show ?thesis by blast
  qed
  have len5: "length [1, 2, 3, 4, 5 :: rat] = 5"
    by simp
  have rank5: "nat (max 1 \<lceil>r64 (dbl_0_8 * of_nat (length [1, 2, 3, 4, 5 :: rat]))\<rceil>) = 4"
    unfolding len5 by (simp add: r64_q5)
  have th5: "quantileInclusive [1, 2, 3, 4, 5] (Fin dbl_0_8) = Some 4"
  proof -
    have "quantileInclusive [1, 2, 3, 4, 5] (Fin dbl_0_8) =
        Some (sort [1, 2, 3, 4, 5] !
          (nat (max 1 \<lceil>r64 (dbl_0_8 * of_nat (length [1, 2, 3, 4, 5 :: rat]))\<rceil>) - 1))"
      using dbl_0_8_range by (intro quantileInclusive_in_range) simp_all
    then show ?thesis
      unfolding rank5 by simp
  qed
  have pool5: "a_allSuites (run_suites (timed_suites [1, 2, 3, 4, 5])) =
     map (\<lambda>d. \<lparr>ss_suiteName = None, ss_totalTime = d, ss_totalTests = 0, ss_failedTests = 0,
                ss_file = None\<rparr>) [1, 2, 3, 4, 5]"
    by (simp add: eval_defs timed_suites_def)
  have times5: "map ss_totalTime (a_allSuites (run_suites (timed_suites [1, 2, 3, 4, 5]))) = [1, 2, 3, 4, 5]"
    by (simp add: pool5)
  have sel5: "map ss_totalTime (quantile_suites (Fin dbl_0_8) (a_allSuites (run_suites (timed_suites [1, 2, 3, 4, 5]))))
     = [5, 4]"
    unfolding pool5 by (simp add: quantile_suites_def th5 sort_desc_def)
  show ?thesis
    unfolding Let_def using general rank5 th5 times5 sel5 by blast
qed

theorem quantile_threshold_witness:
  "opt_quantile no_opts = Fin dbl_0_8 \<and> 0 \<le> dbl_0_8 \<and> dbl_0_8 \<le> 1 \<and>
   js_mul_nat (Fin dbl_0_8) 5 = Fin 4 \<and>
   map ss_totalTime (slowTopQuantileSuites (report_of_root (timed_suites [1, 2, 3, 4, 5]) no_opts)) = [5, 4]"
proof -
  let ?r = "timed_suites [1, 2, 3, 4, 5]"
  have q: "opt_quantile no_opts = Fin dbl_0_8"
    by (simp add: opt_quantile_def no_opts_def)
  have pool: "a_allSuites (run_suites ?r) =
     map (\<lambda>d. \<lparr>ss_suiteName = None, ss_totalTime = d, ss_totalTests = 0, ss_failedTests = 0,
                ss_file = None\<rparr>) [1, 2, 3, 4, 5]"
    by (simp add: eval_defs timed_suites_def)
  have len: "length (a_allSuites (run_suites ?r)) = 5"
    by (simp add: pool)
  have hyp: "opt_quantile no_opts = Fin dbl_0_8 \<and> 0 \<le> dbl_0_8 \<and> dbl_0_8 \<le> 1 \<and>
    a_allSuites (run_suites ?r) \<noteq> [] \<and> length (a_allSuites (run_suites ?r)) < 2 ^ 32"
    using dbl_0_8_range by (simp add: q len) (simp add: pool)
  note th = quantile_threshold [where opts = no_opts and q = dbl_0_8 and r = ?r,
      THEN conjunct1, rule_format, OF hyp, unfolded Let_def]
  have "js_mul_nat (Fin dbl_0_8) (length (a_allSuites (run_suites ?r))) =
      Fin (r64 (dbl_0_8 * of_nat (length (a_allSuites (run_suites ?r)))))"
    by (rule th [THEN conjunct1])
  then have mul: "js_mul_nat (Fin dbl_0_8) 5 = Fin 4"
    unfolding len by (simp add: r64_q5)
  have sel: "map ss_totalTime (quantile_suites (Fin dbl_0_8) (a_allSuites (run_suites ?r))) = [5, 4]"
    by (rule quantile_threshold [where opts = no_opts and q = dbl_0_8 and r = ?r,
          THEN conjunct2, THEN conjunct2, THEN conjunct2, THEN conjunct2])
  have keep: "opt_minKeep no_opts \<le> length (quantile_suites (Fin dbl_0_8) (a_allSuites (run_suites ?r)))"
    using arg_cong [OF sel, of length] by (simp add: opt_minKeep_def no_opts_def)
  have "slowTopQuantileSuites (report_of_root ?r no_opts) =
      quantile_suites (Fin dbl_0_8) (a_allSuites (run_suites ?r))"
    using th keep by blast
  with sel have out: "map ss_totalTime (slowTopQuantileSuites (report_of_root ?r no_opts)) = [5, 4]"
    by simp
  from q dbl_0_8_range mul out show ?thesis by blast
qed

text \<open>
  C5. The slow tests are the test cases with a finite duration above the threshold, by
  duration descending, ties in the order met, cut to the first \<open>topN\<close>. The pool has one
  entry, with its duration, for each test case whose \<open>time\<close> is finite, in the order
  met; the selection is the first \<open>topN\<close> of the sorted candidates, the sorted list is
  descending and keeps the entries of equal duration in the pool's order; and every
  selected entry has a duration above the threshold that is the finite \<open>time\<close> of a
  test case of the tree, so a test case without a finite duration is never selected.
\<close>

theorem slow_tests_selection:
  "(let suites = collect_suites r;
        thr = opt_threshold opts;
        topN = opt_topN opts;
        pool = concat (map timed_of_suite suites);
        cand = filter (\<lambda>t. js_less thr (Fin (st_time t))) pool;
        sel = slowTopQuantileTests (report_of_root r opts)
    in map st_time pool = concat (map (\<lambda>su. concat (map tc_finite_time (testcases_of su))) suites) \<and>
       sel = take topN (sort_desc st_time cand) \<and>
       sorted_wrt (\<lambda>a b. st_time b \<le> st_time a) (sort_desc st_time cand) \<and>
       (\<forall>k. filter (\<lambda>x. st_time x = k) (sort_desc st_time cand) = filter (\<lambda>x. st_time x = k) cand) \<and>
       length sel = min topN (length cand) \<and>
       (\<forall>x\<in>set sel. js_less thr (Fin (st_time x)) \<and>
          (\<exists>su\<in>set suites. \<exists>tc\<in>set (testcases_of su). tc_time tc = Some (Fin (st_time x)))))"
proof -
  let ?suites = "collect_suites r"
  let ?pool = "concat (map timed_of_suite ?suites)"
  let ?thr = "opt_threshold opts"
  let ?cand = "filter (\<lambda>t. js_less ?thr (Fin (st_time t))) ?pool"
  let ?sel = "slowTopQuantileTests (report_of_root r opts)"
  have sel: "?sel = take (opt_topN opts) (sort_desc st_time ?cand)"
    by (simp add: report_slowTests slowTopTests_def)
  have times: "map st_time ?pool = concat (map (\<lambda>su. concat (map tc_finite_time (testcases_of su))) ?suites)"
    by (simp add: map_concat comp_def timed_of_suite_times)
  have len: "length ?sel = min (opt_topN opts) (length ?cand)"
    by (simp add: sel length_sort_desc min.commute)
  have origin: "\<forall>x\<in>set ?sel. js_less ?thr (Fin (st_time x)) \<and>
          (\<exists>su\<in>set ?suites. \<exists>tc\<in>set (testcases_of su). tc_time tc = Some (Fin (st_time x)))"
  proof
    fix x
    assume "x \<in> set ?sel"
    then have "x \<in> set ?cand"
      by (auto simp add: sel set_sort_desc dest: in_set_takeD)
    then show "js_less ?thr (Fin (st_time x)) \<and>
          (\<exists>su\<in>set ?suites. \<exists>tc\<in>set (testcases_of su). tc_time tc = Some (Fin (st_time x)))"
      using pool_origin [of x ?suites] by simp
  qed
  show ?thesis
    unfolding Let_def
    using times sel sort_desc_sorted [of st_time ?cand] sort_desc_stable [of st_time _ ?cand] len origin
    by blast
qed

theorem slow_tests_selection_witness:
  "map st_testName (slowTopQuantileTests (report_of_root ex_roundtrip no_opts)) = [''b2'', ''a2''] \<and>
   map st_time (slowTopQuantileTests (report_of_root ex_roundtrip no_opts)) = [7, 6] \<and>
   slowTopQuantileTests (report_of_root ex_roundtrip no_opts) \<noteq> []"
proof -
  have val: "slowTopQuantileTests (report_of_root ex_roundtrip no_opts) =
     [\<lparr>st_suiteName = Some ''B'', st_className = None, st_testName = ''b2'', st_time = 7, st_file = None\<rparr>,
      \<lparr>st_suiteName = Some ''A'', st_className = None, st_testName = ''a2'', st_time = 6, st_file = None\<rparr>]"
  proof -
    note th = slow_tests_selection [of ex_roundtrip no_opts, unfolded Let_def]
    have "slowTopQuantileTests (report_of_root ex_roundtrip no_opts) =
        take (opt_topN no_opts) (sort_desc st_time
          (filter (\<lambda>t. js_less (opt_threshold no_opts) (Fin (st_time t)))
             (concat (map timed_of_suite (collect_suites ex_roundtrip)))))"
      by (rule th [THEN conjunct2, THEN conjunct1])
    also have "\<dots> = [\<lparr>st_suiteName = Some ''B'', st_className = None, st_testName = ''b2'', st_time = 7, st_file = None\<rparr>,
      \<lparr>st_suiteName = Some ''A'', st_className = None, st_testName = ''a2'', st_time = 6, st_file = None\<rparr>]"
      by (simp add: eval_defs ex_roundtrip_def timed_of_suite_def timed_entry_def testcases_of_def)
    finally show ?thesis .
  qed
  show ?thesis
    by (simp add: val) 
qed

text \<open>
  C6. When the candidate pool (the variable \<open>allSuites\<close>) is not empty and the quantile
  keeps fewer than \<open>minKeepSuites\<close> suites, the result is instead the first
  \<open>minKeepSuites\<close> suites of the whole pool by duration descending (ties in pool
  order); otherwise it is what the quantile keeps. So the result always has at least
  \<open>min(minKeepSuites, size of the pool)\<close> suites.
\<close>

theorem floor_rule:
  "(let pool = a_allSuites (run_suites r);
        k = opt_minKeep opts;
        sel = quantile_suites (opt_quantile opts) pool;
        out = slowTopQuantileSuites (report_of_root r opts)
    in (pool \<noteq> [] \<and> length sel < k \<longrightarrow> out = take k (sort_desc ss_totalTime pool)) \<and>
       (\<not> (pool \<noteq> [] \<and> length sel < k) \<longrightarrow> out = sel) \<and>
       sorted_wrt (\<lambda>a b. ss_totalTime b \<le> ss_totalTime a) (sort_desc ss_totalTime pool) \<and>
       (\<forall>d. filter (\<lambda>s. ss_totalTime s = d) (sort_desc ss_totalTime pool) =
            filter (\<lambda>s. ss_totalTime s = d) pool) \<and>
       min k (length pool) \<le> length out)"
proof -
  let ?pool = "a_allSuites (run_suites r)"
  let ?k = "opt_minKeep opts"
  let ?sel = "quantile_suites (opt_quantile opts) ?pool"
  let ?out = "slowTopQuantileSuites (report_of_root r opts)"
  have out: "?out = (if length ?sel < ?k \<and> ?pool \<noteq> [] then take ?k (sort_desc ss_totalTime ?pool) else ?sel)"
    by (simp add: report_of_root_def slowSuites_def Let_def)
  have floor: "?pool \<noteq> [] \<and> length ?sel < ?k \<longrightarrow> ?out = take ?k (sort_desc ss_totalTime ?pool)"
    by (simp add: out)
  have keep: "\<not> (?pool \<noteq> [] \<and> length ?sel < ?k) \<longrightarrow> ?out = ?sel"
    using out by (cases "length ?sel < ?k \<and> ?pool \<noteq> []") auto
  have len: "min ?k (length ?pool) \<le> length ?out"
  proof (cases "length ?sel < ?k \<and> ?pool \<noteq> []")
    case True
    then show ?thesis by (simp add: out length_sort_desc)
  next
    case False
    then have "?out = ?sel" unfolding out by (rule if_not_P)
    moreover from False have "?k \<le> length ?sel \<or> ?pool = []" by auto
    ultimately show ?thesis by auto
  qed
  show ?thesis
    unfolding Let_def
    using floor keep len sort_desc_sorted [of ss_totalTime ?pool] sort_desc_stable [of ss_totalTime _ ?pool]
    by blast
qed

theorem floor_rule_witness:
  "map ss_totalTime (a_allSuites (run_suites (timed_suites [3, 1, 2]))) = [3, 1, 2] \<and>
   map ss_totalTime (quantile_suites (opt_quantile opts_q1_keep2)
      (a_allSuites (run_suites (timed_suites [3, 1, 2])))) = [3] \<and>
   opt_minKeep opts_q1_keep2 = 2 \<and>
   map ss_totalTime (slowTopQuantileSuites (report_of_root (timed_suites [3, 1, 2]) opts_q1_keep2)) = [3, 2] \<and>
   map ss_totalTime (quantile_suites (opt_quantile (no_opts\<lparr>slowSuitesQuantile := Some (Fin 1)\<rparr>))
      (a_allSuites (run_suites (timed_suites [3, 1, 2])))) = [3] \<and>
   opt_minKeep (no_opts\<lparr>slowSuitesQuantile := Some (Fin 1)\<rparr>) = 1 \<and>
   map ss_totalTime (slowTopQuantileSuites (report_of_root (timed_suites [3, 1, 2]) (no_opts\<lparr>slowSuitesQuantile := Some (Fin 1)\<rparr>))) = [3]"
proof -
  let ?r = "timed_suites [3, 1, 2]"
  have pool: "a_allSuites (run_suites ?r) =
      [\<lparr>ss_suiteName = None, ss_totalTime = 3, ss_totalTests = 0, ss_failedTests = 0, ss_file = None\<rparr>,
       \<lparr>ss_suiteName = None, ss_totalTime = 1, ss_totalTests = 0, ss_failedTests = 0, ss_file = None\<rparr>,
       \<lparr>ss_suiteName = None, ss_totalTime = 2, ss_totalTests = 0, ss_failedTests = 0, ss_file = None\<rparr>]"
    by (simp add: eval_defs timed_suites_def)
  have k: "opt_minKeep opts_q1_keep2 = 2"
    by (simp add: opts_q1_keep2_def opt_minKeep_def no_opts_def)
  have k0: "opt_minKeep (no_opts\<lparr>slowSuitesQuantile := Some (Fin 1)\<rparr>) = 1"
    by (simp add: opt_minKeep_def no_opts_def)
  have sel: "quantile_suites (opt_quantile opts_q1_keep2) (a_allSuites (run_suites ?r)) =
      [\<lparr>ss_suiteName = None, ss_totalTime = 3, ss_totalTests = 0, ss_failedTests = 0, ss_file = None\<rparr>]"
    by (simp add: pool opts_q1_keep2_def opt_quantile_def no_opts_def quantile_suites_def
        quantileInclusive_def sort_desc_def round64_numeral Let_def)
  have sel0: "quantile_suites (opt_quantile (no_opts\<lparr>slowSuitesQuantile := Some (Fin 1)\<rparr>)) (a_allSuites (run_suites ?r)) =
      [\<lparr>ss_suiteName = None, ss_totalTime = 3, ss_totalTests = 0, ss_failedTests = 0, ss_file = None\<rparr>]"
    by (simp add: pool opt_quantile_def no_opts_def quantile_suites_def
        quantileInclusive_def sort_desc_def round64_numeral Let_def)
  note th = floor_rule [of ?r opts_q1_keep2, unfolded Let_def, THEN conjunct1]
  have "slowTopQuantileSuites (report_of_root ?r opts_q1_keep2) =
      take (opt_minKeep opts_q1_keep2) (sort_desc ss_totalTime (a_allSuites (run_suites ?r)))"
    by (rule th [rule_format]) (simp add: sel k, simp add: pool)
  then have out: "map ss_totalTime (slowTopQuantileSuites (report_of_root ?r opts_q1_keep2)) = [3, 2]"
    by (simp add: k pool sort_desc_def)
  note th0 = floor_rule [of ?r "no_opts\<lparr>slowSuitesQuantile := Some (Fin 1)\<rparr>", unfolded Let_def, THEN conjunct2, THEN conjunct1]
  have "slowTopQuantileSuites (report_of_root ?r (no_opts\<lparr>slowSuitesQuantile := Some (Fin 1)\<rparr>)) =
      quantile_suites (opt_quantile (no_opts\<lparr>slowSuitesQuantile := Some (Fin 1)\<rparr>)) (a_allSuites (run_suites ?r))"
    by (rule th0 [rule_format]) (simp add: sel0 k0)
  then have out0: "map ss_totalTime (slowTopQuantileSuites (report_of_root ?r (no_opts\<lparr>slowSuitesQuantile := Some (Fin 1)\<rparr>))) = [3]"
    by (simp add: sel0)
  have p: "map ss_totalTime (a_allSuites (run_suites ?r)) = [3, 1, 2]"
    by (simp add: pool)
  have s: "map ss_totalTime (quantile_suites (opt_quantile opts_q1_keep2)
      (a_allSuites (run_suites ?r))) = [3]"
    by (simp add: sel)
  have s0: "map ss_totalTime (quantile_suites (opt_quantile (no_opts\<lparr>slowSuitesQuantile := Some (Fin 1)\<rparr>))
      (a_allSuites (run_suites ?r))) = [3]"
    by (simp add: sel0)
  from p s k out s0 k0 out0 show ?thesis
    by (intro conjI)
qed

text \<open>
  C7. With the other options equal, the slow tests at threshold \<open>t\<close> are a prefix of
  the slow tests at any threshold \<open>t' <= t\<close>, so every test selected at \<open>t\<close> is
  selected at \<open>t'\<close>: lowering the threshold only adds items. Every selected test has a
  duration strictly above the threshold, never equal to it.
\<close>

theorem threshold_monotone:
  "(let hi = slowTopQuantileTests (report_of_root r (opts\<lparr>slowTestThresholdSec := Some t\<rparr>));
        lo = slowTopQuantileTests (report_of_root r (opts\<lparr>slowTestThresholdSec := Some t'\<rparr>))
    in (\<forall>x\<in>set hi. js_less t (Fin (st_time x)) \<and> Fin (st_time x) \<noteq> t) \<and>
       (js_le t' t \<longrightarrow> prefix hi lo \<and> set hi \<subseteq> set lo))"
proof -
  let ?pool = "concat (map timed_of_suite (collect_suites r))"
  let ?n = "opt_topN opts"
  have hi: "slowTopQuantileTests (report_of_root r (opts\<lparr>slowTestThresholdSec := Some t\<rparr>)) =
      slowTopTests t ?n ?pool"
    by (simp add: report_slowTests opt_threshold_def opt_topN_def)
  have lo: "slowTopQuantileTests (report_of_root r (opts\<lparr>slowTestThresholdSec := Some t'\<rparr>)) =
      slowTopTests t' ?n ?pool"
    by (simp add: report_slowTests opt_threshold_def opt_topN_def)
  have strict: "\<forall>x\<in>set (slowTopTests t ?n ?pool). js_less t (Fin (st_time x)) \<and> Fin (st_time x) \<noteq> t"
  proof
    fix x
    assume "x \<in> set (slowTopTests t ?n ?pool)"
    then have "js_less t (Fin (st_time x))"
      by (simp add: slowTopTests_above)
    then show "js_less t (Fin (st_time x)) \<and> Fin (st_time x) \<noteq> t"
      by (cases t) auto
  qed
  have mono: "js_le t' t \<longrightarrow>
      prefix (slowTopTests t ?n ?pool) (slowTopTests t' ?n ?pool) \<and>
      set (slowTopTests t ?n ?pool) \<subseteq> set (slowTopTests t' ?n ?pool)"
    using slowTopTests_prefix [of t' t ?n ?pool] by (auto dest: set_mono_prefix)
  show ?thesis
    unfolding Let_def hi lo using strict mono by (rule conjI)
qed

theorem threshold_monotone_witness:
  "js_le (Fin 5) (Fin 6) \<and>
   map st_time (slowTopQuantileTests (report_of_root ex_roundtrip (no_opts\<lparr>slowTestThresholdSec := Some (Fin 6)\<rparr>))) = [7] \<and>
   map st_time (slowTopQuantileTests (report_of_root ex_roundtrip (no_opts\<lparr>slowTestThresholdSec := Some (Fin 5)\<rparr>))) = [7, 6] \<and>
   prefix (slowTopQuantileTests (report_of_root ex_roundtrip (no_opts\<lparr>slowTestThresholdSec := Some (Fin 6)\<rparr>)))
          (slowTopQuantileTests (report_of_root ex_roundtrip (no_opts\<lparr>slowTestThresholdSec := Some (Fin 5)\<rparr>)))"
proof -
  have le: "js_le (Fin 5) (Fin 6)" by simp
  have hi: "map st_time (slowTopQuantileTests (report_of_root ex_roundtrip (no_opts\<lparr>slowTestThresholdSec := Some (Fin 6)\<rparr>))) = [7]"
    by (simp add: eval_defs ex_roundtrip_def)
  have lo: "map st_time (slowTopQuantileTests (report_of_root ex_roundtrip (no_opts\<lparr>slowTestThresholdSec := Some (Fin 5)\<rparr>))) = [7, 6]"
    by (simp add: eval_defs ex_roundtrip_def)
  note th = threshold_monotone [where r = ex_roundtrip and opts = no_opts and t = "Fin 6" and t' = "Fin 5",
      unfolded Let_def, THEN conjunct2]
  from th le have "prefix (slowTopQuantileTests (report_of_root ex_roundtrip (no_opts\<lparr>slowTestThresholdSec := Some (Fin 6)\<rparr>)))
          (slowTopQuantileTests (report_of_root ex_roundtrip (no_opts\<lparr>slowTestThresholdSec := Some (Fin 5)\<rparr>)))"
    by blast
  with le hi lo show ?thesis by blast
qed

text \<open>
  C8. \<open>failed\<close> has one entry for each failure or error annotation: the suites in
  order, within a suite its test cases in order, within a test case the entries of its
  failure nodes in order and then those of its error nodes in order.
\<close>

theorem failed_one_entry_per_annotation:
  "failed (report_of_root r opts) =
     concat (map (\<lambda>su.
       concat (map (\<lambda>tc.
           map (\<lambda>nd. failed_entry (su_name su) tc (Failure, nd)) (to_array truthy_node (tc_failure tc)) @
           map (\<lambda>nd. failed_entry (su_name su) tc (Error, nd)) (to_array truthy_node (tc_error tc)))
         (testcases_of su)))
       (collect_suites r)) \<and>
   length (failed (report_of_root r opts)) =
     (\<Sum>su\<leftarrow>collect_suites r. \<Sum>tc\<leftarrow>testcases_of su.
        length (to_array truthy_node (tc_failure tc)) + length (to_array truthy_node (tc_error tc)))"
proof -
  have shape: "failed_of_suite = (\<lambda>su.
      concat (map (\<lambda>tc.
           map (\<lambda>nd. failed_entry (su_name su) tc (Failure, nd)) (to_array truthy_node (tc_failure tc)) @
           map (\<lambda>nd. failed_entry (su_name su) tc (Error, nd)) (to_array truthy_node (tc_error tc)))
         (testcases_of su)))"
    by (rule ext) (simp add: failed_of_suite_def annotations_def comp_def)
  have first: "failed (report_of_root r opts) =
     concat (map (\<lambda>su.
       concat (map (\<lambda>tc.
           map (\<lambda>nd. failed_entry (su_name su) tc (Failure, nd)) (to_array truthy_node (tc_failure tc)) @
           map (\<lambda>nd. failed_entry (su_name su) tc (Error, nd)) (to_array truthy_node (tc_error tc)))
         (testcases_of su)))
       (collect_suites r))"
    by (simp only: report_failed shape)
  show ?thesis
    by (rule conjI, rule first) (simp add: first length_concat comp_def)
qed

text \<open>
  C9. The claim as stated fails in its last part: for a test case whose \<open>time\<close> is
  not a number, the failed entry carries \<open>NaN\<close> as its duration; the field is not
  absent.
\<close>

theorem nonfinite_time_in_failed_entry:
  "map tc_time (concat (map testcases_of (collect_suites ex_nan_time))) = [Some NaN] \<and>
   map ft_time (failed (report_of_root ex_nan_time no_opts)) = [Some NaN] \<and>
   \<not> (\<forall>e\<in>set (failed (report_of_root ex_nan_time no_opts)). ft_time e = None)"
  by (simp add: eval_defs ex_nan_time_def testcases_of_def)

text \<open>
  C9, amended. A test case whose \<open>time\<close> attribute is present but converts to NaN or
  an infinity does not make the operation raise (a tree the parser returns always gives
  a report). Its step of the loop leaves the pool of timed tests and the suite's sum of
  durations as they were, it is counted in \<open>totalTests\<close> like every test case, and its
  failure and error nodes give their failed entries as usual; in those entries the
  duration is the converted, non-finite value itself.
\<close>

theorem nonfinite_time:
  "(tc_time tc = Some v \<and> \<not> isFinite v \<longrightarrow>
      (let A' = fst (testcase_step sn tc (A, S));
           S' = snd (testcase_step sn tc (A, S))
       in a_allTimedTests A' = a_allTimedTests A \<and>
          s_suiteTimeFromCases S' = s_suiteTimeFromCases S \<and>
          a_failed A' = a_failed A @
            map (\<lambda>nd. failed_entry sn tc (Failure, nd)) (to_array truthy_node (tc_failure tc)) @
            map (\<lambda>nd. failed_entry sn tc (Error, nd)) (to_array truthy_node (tc_error tc)) \<and>
          (\<forall>st nd. ft_time (failed_entry sn tc (st, nd)) = Some v))) \<and>
   totalTests (stats (report_of_root r opts)) =
     int (length (concat (map testcases_of (collect_suites r)))) \<and>
   (parse xml = Inr r \<longrightarrow> getJUnitReportFromXml parse xml opts = Inr (report_of_root r opts))"
proof -
  have step: "a_allTimedTests (fst (testcase_step sn tc (A, S))) = a_allTimedTests A \<and>
          s_suiteTimeFromCases (snd (testcase_step sn tc (A, S))) = s_suiteTimeFromCases S \<and>
          a_failed (fst (testcase_step sn tc (A, S))) = a_failed A @
            map (\<lambda>nd. failed_entry sn tc (Failure, nd)) (to_array truthy_node (tc_failure tc)) @
            map (\<lambda>nd. failed_entry sn tc (Error, nd)) (to_array truthy_node (tc_error tc)) \<and>
          (\<forall>st nd. ft_time (failed_entry sn tc (st, nd)) = Some v)"
    if h: "tc_time tc = Some v" "\<not> isFinite v"
  proof -
    from h have nofin: "timed_entry sn tc = []" "tc_finite_time tc = []"
      by (cases v; simp add: timed_entry_def tc_finite_time_def)+
    show ?thesis
      by (simp add: testcase_step_eq nofin annotations_def comp_def failed_entry_def h(1))
  qed
  have total: "totalTests (stats (report_of_root r opts)) =
     int (length (concat (map testcases_of (collect_suites r))))"
    by (simp add: report_stats)
  have noraise: "parse xml = Inr r \<longrightarrow> getJUnitReportFromXml parse xml opts = Inr (report_of_root r opts)"
    by (simp add: getJUnitReportFromXml_def)
  show ?thesis
    unfolding Let_def using step total noraise by blast
qed

theorem nonfinite_time_witness:
  "tc_time (tc_plain\<lparr>tc_time := Some NaN, tc_failure := Many [NodeStr ''boom'']\<rparr>) = Some NaN \<and>
   \<not> isFinite NaN \<and>
   a_allTimedTests (fst (testcase_step None
      (tc_plain\<lparr>tc_time := Some NaN, tc_failure := Many [NodeStr ''boom'']\<rparr>) (init_acc, init_sacc))) = [] \<and>
   s_suiteTimeFromCases (snd (testcase_step None
      (tc_plain\<lparr>tc_time := Some NaN, tc_failure := Many [NodeStr ''boom'']\<rparr>) (init_acc, init_sacc))) = Fin 0 \<and>
   map ft_time (a_failed (fst (testcase_step None
      (tc_plain\<lparr>tc_time := Some NaN, tc_failure := Many [NodeStr ''boom'']\<rparr>) (init_acc, init_sacc)))) = [Some NaN] \<and>
   totalTests (stats (report_of_root ex_nan_time no_opts)) = 1 \<and>
   getJUnitReportFromXml (\<lambda>s. Inr ex_nan_time) [] no_opts = Inr (report_of_root ex_nan_time no_opts)"
proof -
  let ?tc = "tc_plain\<lparr>tc_time := Some NaN, tc_failure := Many [NodeStr ''boom'']\<rparr>"
  have hyp: "tc_time ?tc = Some NaN \<and> \<not> isFinite NaN"
    by (simp add: tc_plain_def)
  note th = nonfinite_time [where tc = ?tc and v = NaN and sn = None and A = init_acc and S = init_sacc,
      THEN conjunct1, rule_format, OF hyp, unfolded Let_def]
  from th have a: "a_allTimedTests (fst (testcase_step None ?tc (init_acc, init_sacc))) = []"
    by (simp add: init_acc_def)
  from th have b: "s_suiteTimeFromCases (snd (testcase_step None ?tc (init_acc, init_sacc))) = Fin 0"
    by (simp add: init_sacc_def)
  from th have c: "map ft_time (a_failed (fst (testcase_step None ?tc (init_acc, init_sacc)))) = [Some NaN]"
    by (simp add: init_acc_def tc_plain_def)
  note rest = nonfinite_time [where r = ex_nan_time and opts = no_opts and parse = "\<lambda>s. Inr ex_nan_time"
      and xml = "[]", THEN conjunct2]
  have d: "totalTests (stats (report_of_root ex_nan_time no_opts)) = 1"
    using rest [THEN conjunct1]
    by (simp add: ex_nan_time_def collect_suites_def root_of_def testcases_of_def su_plain_def)
  have e: "getJUnitReportFromXml (\<lambda>s. Inr ex_nan_time) [] no_opts = Inr (report_of_root ex_nan_time no_opts)"
    by (rule rest [THEN conjunct2, rule_format]) simp
  from hyp a b c d e show ?thesis by blast
qed

text \<open>
  C10. The claim as stated fails: a suite without a \<open>time\<close> attribute whose
  test-case durations add up beyond the range of doubles resolves to \<open>Infinity\<close> and is
  left out of the pool. With that single suite the pool and \<open>slowTopQuantileSuites\<close>
  are empty although the report has a suite.
\<close>

theorem overflowing_suite_excluded:
  "length (collect_suites ex_overflow) = 1 \<and>
   a_allSuites (run_suites ex_overflow) = [] \<and>
   slowTopQuantileSuites (report_of_root ex_overflow no_opts) = []"
  by (simp add: eval_defs ex_overflow_def su_overflow_def round64_1e308 round64_2e308 round64_twice_1e308)

text \<open>
  C10, amended. A suite with no finite \<open>time\<close> attribute and no finite test-case
  duration resolves to duration 0 and joins the pool. A suite joins the pool exactly
  when its resolved duration is finite; one that is left out has no finite \<open>time\<close>
  attribute, so its duration is the running sum of its finite test-case durations, which
  has left the range of binary64. When every suite resolves to a finite duration the pool is
  the suite list, in order, each with its resolved duration. \<open>slowTopQuantileSuites\<close> is
  not empty whenever the pool is not, provided \<open>minKeepSuites\<close> is at least 1 or the
  quantile lies in \<open>[0,1]\<close> (the pool having fewer than \<open>2^32\<close> suites); with
  \<open>minKeepSuites\<close> 0 and quantile 2 the two suites of \<open>ex_roundtrip\<close> give an empty
  selection.
\<close>

theorem suites_are_candidates:
  "((\<forall>t. su_time su \<noteq> Some (Fin t)) \<and>
    (\<forall>tc\<in>set (testcases_of su). \<forall>t. tc_time tc \<noteq> Some (Fin t)) \<longrightarrow>
      map ss_totalTime (a_allSuites (suite_step su A)) = map ss_totalTime (a_allSuites A) @ [0]) \<and>
   (isFinite (suite_duration su) \<longrightarrow>
      length (a_allSuites (suite_step su A)) = length (a_allSuites A) + 1) \<and>
   (\<not> isFinite (suite_duration su) \<longrightarrow>
      a_allSuites (suite_step su A) = a_allSuites A \<and>
      (\<forall>t. su_time su \<noteq> Some (Fin t)) \<and>
      suite_duration su =
        fold (\<lambda>t a. js_add a (Fin t)) (concat (map tc_finite_time (testcases_of su))) (Fin 0)) \<and>
   (map ss_totalTime (a_allSuites (run_suites ex_roundtrip)) = [7, 9] \<and>
    slowTopQuantileSuites (report_of_root ex_roundtrip opts_q2_keep0) = []) \<and>
   (let suites = collect_suites r;
        pool = a_allSuites (run_suites r);
        out = slowTopQuantileSuites (report_of_root r opts)
    in ((\<forall>su\<in>set suites. isFinite (suite_duration su)) \<longrightarrow>
          map ss_suiteName pool = map su_name suites \<and>
          map (\<lambda>s. Fin (ss_totalTime s)) pool = map suite_duration suites) \<and>
       (pool \<noteq> [] \<and>
        (1 \<le> opt_minKeep opts \<or>
         (\<exists>q. opt_quantile opts = Fin q \<and> 0 \<le> q \<and> q \<le> 1 \<and> length pool < 2 ^ 32)) \<longrightarrow>
          out \<noteq> []))"
proof -
  have zero: "map ss_totalTime (a_allSuites (suite_step su A)) = map ss_totalTime (a_allSuites A) @ [0]"
    if "\<forall>t. su_time su \<noteq> Some (Fin t)"
      and "\<forall>tc\<in>set (testcases_of su). \<forall>t. tc_time tc \<noteq> Some (Fin t)"
    using suite_duration_zero [OF that] by (simp add: suite_step_eq suite_entry_def)
  have kept: "length (a_allSuites (suite_step su A)) = length (a_allSuites A) + 1"
    if "isFinite (suite_duration su)"
    using suite_entry_finite [OF that] by (auto simp add: suite_step_eq)
  have dropped: "a_allSuites (suite_step su A) = a_allSuites A \<and>
      (\<forall>t. su_time su \<noteq> Some (Fin t)) \<and>
      suite_duration su =
        fold (\<lambda>t a. js_add a (Fin t)) (concat (map tc_finite_time (testcases_of su))) (Fin 0)"
    if "\<not> isFinite (suite_duration su)"
  proof -
    have noattr: "\<forall>t. su_time su \<noteq> Some (Fin t)"
      using that by (auto simp add: suite_duration_def)
    then have "suite_duration su =
        fold (\<lambda>t a. js_add a (Fin t)) (concat (map tc_finite_time (testcases_of su))) (Fin 0)"
      by (simp add: suite_duration_def split: option.splits jsnum.splits)
    with noattr suite_entry_nonfinite [OF that] show ?thesis
      by (simp add: suite_step_eq)
  qed
  have empty: "map ss_totalTime (a_allSuites (run_suites ex_roundtrip)) = [7, 9] \<and>
    slowTopQuantileSuites (report_of_root ex_roundtrip opts_q2_keep0) = []"
    by (simp add: eval_defs ex_roundtrip_def opts_q2_keep0_def)
  have pool: "a_allSuites (run_suites r) = concat (map suite_entry (collect_suites r))"
    by (simp add: run_suites_eq)
  have full: "map ss_suiteName (a_allSuites (run_suites r)) = map su_name (collect_suites r) \<and>
          map (\<lambda>s. Fin (ss_totalTime s)) (a_allSuites (run_suites r)) =
            map suite_duration (collect_suites r)"
    if "\<forall>su\<in>set (collect_suites r). isFinite (suite_duration su)"
    unfolding pool using that by (rule pool_full)
  have out: "slowTopQuantileSuites (report_of_root r opts) \<noteq> []"
    if "a_allSuites (run_suites r) \<noteq> []"
      and "1 \<le> opt_minKeep opts \<or>
         (\<exists>q. opt_quantile opts = Fin q \<and> 0 \<le> q \<and> q \<le> 1 \<and> length (a_allSuites (run_suites r)) < 2 ^ 32)"
  proof -
    have "slowTopQuantileSuites (report_of_root r opts) =
        slowSuites (opt_quantile opts) (opt_minKeep opts) (a_allSuites (run_suites r))"
      by (simp add: report_of_root_def Let_def)
    with slowSuites_nonempty [OF that] show ?thesis by simp
  qed
  show ?thesis
    unfolding Let_def using zero kept dropped empty full out by blast
qed

theorem suites_are_candidates_witness:
  "(\<forall>t. su_time su_plain \<noteq> Some (Fin t)) \<and>
   testcases_of su_plain = [] \<and>
   map ss_totalTime (a_allSuites (suite_step su_plain init_acc)) = [0] \<and>
   isFinite (suite_duration su_plain) \<and>
   length (a_allSuites (suite_step su_plain init_acc)) = 1 \<and>
   suite_duration su_overflow = PosInf \<and>
   a_allSuites (suite_step su_overflow init_acc) = [] \<and>
   map suite_duration (collect_suites ex_roundtrip) = [Fin 7, Fin 9] \<and>
   map ss_suiteName (a_allSuites (run_suites ex_roundtrip)) = [Some ''A'', Some ''B''] \<and>
   map ss_totalTime (a_allSuites (run_suites ex_roundtrip)) = [7, 9] \<and>
   opt_minKeep no_opts = 1 \<and>
   slowTopQuantileSuites (report_of_root ex_roundtrip no_opts) \<noteq> []"
proof -
  have h1: "(\<forall>t. su_time su_plain \<noteq> Some (Fin t)) \<and>
    (\<forall>tc\<in>set (testcases_of su_plain). \<forall>t. tc_time tc \<noteq> Some (Fin t))"
    by (simp add: su_plain_def testcases_of_def)
  have tcs: "testcases_of su_plain = []"
    by (simp add: su_plain_def testcases_of_def)
  note c1 = suites_are_candidates [where su = su_plain and A = init_acc, THEN conjunct1, rule_format, OF h1]
  have zero: "map ss_totalTime (a_allSuites (suite_step su_plain init_acc)) = [0]"
    using c1 by (simp add: init_acc_def)
  have fin: "isFinite (suite_duration su_plain)"
    by (simp add: suite_duration_def testcases_of_def su_plain_def)
  note c2 = suites_are_candidates [where su = su_plain and A = init_acc,
      THEN conjunct2, THEN conjunct1, rule_format, OF fin]
  have one: "length (a_allSuites (suite_step su_plain init_acc)) = 1"
    using c2 by (simp add: init_acc_def)
  have dur: "suite_duration su_overflow = PosInf"
    by (simp add: su_overflow_def suite_duration_def testcases_of_def tc_finite_time_def
        su_plain_def tc_plain_def round64_1e308 round64_2e308 round64_twice_1e308)
  then have inf: "\<not> isFinite (suite_duration su_overflow)"
    by simp
  note c3 = suites_are_candidates [where su = su_overflow and A = init_acc,
      THEN conjunct2, THEN conjunct2, THEN conjunct1, rule_format, OF inf, THEN conjunct1]
  have dropped: "a_allSuites (suite_step su_overflow init_acc) = []"
    using c3 by (simp add: init_acc_def)
  have durs: "map suite_duration (collect_suites ex_roundtrip) = [Fin 7, Fin 9]"
    by (simp add: ex_roundtrip_def collect_suites_def root_of_def suite_duration_def testcases_of_def
        tc_finite_time_def su_plain_def tc_plain_def round64_1 round64_numeral)
  have allfin: "\<forall>su\<in>set (collect_suites ex_roundtrip). isFinite (suite_duration su)"
  proof
    fix su
    assume "su \<in> set (collect_suites ex_roundtrip)"
    then have "suite_duration su \<in> set (map suite_duration (collect_suites ex_roundtrip))"
      by simp
    then show "isFinite (suite_duration su)"
      unfolding durs by auto
  qed
  note c4 = suites_are_candidates [where r = ex_roundtrip and opts = no_opts, unfolded Let_def,
      THEN conjunct2, THEN conjunct2, THEN conjunct2, THEN conjunct2, THEN conjunct1, THEN mp, OF allfin]
  have names: "map ss_suiteName (a_allSuites (run_suites ex_roundtrip)) = [Some ''A'', Some ''B'']"
    using c4 [THEN conjunct1]
    by (simp add: ex_roundtrip_def collect_suites_def root_of_def su_plain_def)
  have "map (\<lambda>s. Fin (ss_totalTime s)) (a_allSuites (run_suites ex_roundtrip)) = [Fin 7, Fin 9]"
    using c4 [THEN conjunct2] durs by simp
  then have times: "map ss_totalTime (a_allSuites (run_suites ex_roundtrip)) = [7, 9]"
    by (auto simp add: map_eq_Cons_conv)
  have k: "opt_minKeep no_opts = 1"
    by (simp add: opt_minKeep_def no_opts_def)
  have h5: "a_allSuites (run_suites ex_roundtrip) \<noteq> [] \<and>
        (1 \<le> opt_minKeep no_opts \<or>
         (\<exists>q. opt_quantile no_opts = Fin q \<and> 0 \<le> q \<and> q \<le> 1 \<and>
              length (a_allSuites (run_suites ex_roundtrip)) < 2 ^ 32))"
    using times k by auto
  note c5 = suites_are_candidates [where r = ex_roundtrip and opts = no_opts, unfolded Let_def,
      THEN conjunct2, THEN conjunct2, THEN conjunct2, THEN conjunct2, THEN conjunct2, rule_format, OF h5]
  from h1 [THEN conjunct1] tcs zero fin one dur dropped durs names times k c5 show ?thesis
    by (intro conjI)
qed

end
